theory Spec2Isabelle
  imports Main "HOL-Library.Word" "HOL-Library.AList"
begin

unbundle bit_operations_syntax

section \<open>Basic types\<close>

type_synonym byte = "8 word"
type_synonym u32 = "32 word"
type_synonym path = string

text \<open>
  Instants and durations are counted in nanoseconds, as \<^verbatim>\<open>time.Duration\<close> is. An
  instant is the number of nanoseconds since the Unix epoch.
\<close>

type_synonym time = int
type_synonym duration = int

definition Millisecond :: duration where "Millisecond = 1000000"
definition Second :: duration where "Second = 1000000000"
definition Minute :: duration where "Minute = 60 * Second"

text \<open>The zero \<^verbatim>\<open>time.Time\<close>: January 1 of year 1, 00:00:00 UTC.\<close>

definition zero_time :: time where
  "zero_time = - 62135596800 * Second"

text \<open>
  \<^verbatim>\<open>time.Duration(n) * time.Second\<close> on Go's \<^verbatim>\<open>int64\<close>: the product wraps around.
\<close>

definition seconds_duration :: "int \<Rightarrow> duration" where
  "seconds_duration n = sint (word_of_int n * 1000000000 :: 64 word)"

section \<open>JSON values and file contents\<close>

text \<open>
  The byte layer of \<^verbatim>\<open>encoding/json\<close> (white space, escapes, indentation) is not
  modelled: a JSON text is the value it denotes. Object members keep their order and
  their duplicates. \<open>JInt\<close> is a number literal that is an integer, \<open>JFrac\<close> any other
  number literal. Strings are taken to be valid UTF-8, as every string that
  \<^verbatim>\<open>json.Unmarshal\<close> produces is.

  The RFC 3339 text of \<^verbatim>\<open>time.Time\<close> is not modelled either. A string literal at a
  position that is decoded into a \<^verbatim>\<open>time.Time\<close> is \<open>JTime t\<close> when
  \<^verbatim>\<open>Time.UnmarshalJSON\<close> accepts its text, \<open>t\<close> being the instant it denotes, and
  \<open>JString\<close> when it does not; everywhere else a string literal is \<open>JString\<close>.
\<close>

datatype json =
    JNull
  | JBool bool
  | JInt int
  | JFrac string
  | JString string
  | JTime time
  | JArray "json list"
  | JObject "(string \<times> json) list"

text \<open>
  What a file or an HTTP body holds: \<open>Doc j\<close> is a text that is valid JSON for the value
  \<open>j\<close>, \<open>Raw s\<close> are bytes that are not a JSON text.
\<close>

datatype content = Raw string | Doc json

datatype json_error =
    SyntaxError
  | UnmarshalTypeError string
  | TimeParseError
  | MarshalerError

section \<open>Errors\<close>

text \<open>\<^verbatim>\<open>os.IsExist\<close> and \<^verbatim>\<open>os.IsNotExist\<close> classify the errors of the file system.\<close>

datatype os_error = ErrExist | ErrNotExist | ErrPermission | ErrIO string

definition IsExist :: "os_error \<Rightarrow> bool" where
  "IsExist e = (e = ErrExist)"

definition IsNotExist :: "os_error \<Rightarrow> bool" where
  "IsNotExist e = (e = ErrNotExist)"

text \<open>The failure of the entropy source, as \<^verbatim>\<open>crypto/rand\<close> reports it.\<close>

datatype rand_error = RandError string

text \<open>What the outbound HTTP client can report instead of a response.\<close>

datatype http_error = TransportError string

text \<open>
  Go errors are values. Every \<^verbatim>\<open>fmt.Errorf\<close> site of the program is one constructor,
  carrying the values its format string prints; \<open>ErrOS\<close> and \<open>ErrJSON\<close> are library
  errors the program returns as they are. \<open>ErrRefreshTokenExpired\<close> is the package-level
  sentinel the callers compare against.
\<close>

datatype error =
    ErrOS os_error
  | ErrJSON json_error
  | ErrGenerateRandomBytes rand_error
  | ErrGenerateState rand_error
  | ErrParseTokenFile json_error
  | ErrNoTokensInFile
  | ErrNoTokensForClient string
  | ErrAcquireLock error
  | ErrWriteTempFile os_error
  | ErrRenameTempFile os_error
  | ErrRenameAndRemoveTempFile os_error os_error
  | ErrRemoveStaleLock path os_error
  | ErrAcquireFileLock os_error
  | ErrLockTimeout duration
  | ErrAccessTokenEmpty
  | ErrAccessTokenTooShort nat
  | ErrExpiresInNotPositive int
  | ErrUnexpectedTokenType string
  | ErrCreateRequest http_error
  | ErrRefreshRequestFailed http_error
  | ErrReadResponse http_error
  | ErrRefreshTokenExpired
  | ErrServer string string
  | ErrRefreshFailedStatus int content
  | ErrParseTokenResponse json_error
  | ErrInvalidTokenResponse error
  | ErrCallback string string
  | ErrCallbackCode string
  | ErrStartCallbackServer int string
  | ErrContext string
  | ErrCallbackTimeout duration

section \<open>PKCE: base64url and SHA-256\<close>

text \<open>
  \<^verbatim>\<open>base64.RawURLEncoding.EncodeToString\<close>: the URL-safe alphabet, three bytes to four
  characters, and no padding after a last group of one or two bytes.
\<close>

definition encodeURL :: string where
  "encodeURL = ''ABCDEFGHIJKLMNOPQRSTUVWXYZabcdefghijklmnopqrstuvwxyz0123456789-_''"

definition b64_char :: "u32 \<Rightarrow> char" where
  "b64_char v = encodeURL ! unat (v AND 0x3F)"

fun EncodeToString :: "byte list \<Rightarrow> string" where
  "EncodeToString (a # b # c # rest) =
     (let val = push_bit 16 (ucast a) OR push_bit 8 (ucast b) OR ucast c
      in [b64_char (drop_bit 18 val), b64_char (drop_bit 12 val),
          b64_char (drop_bit 6 val), b64_char val]) @ EncodeToString rest"
| "EncodeToString [a, b] =
     (let val = push_bit 16 (ucast a) OR push_bit 8 (ucast b)
      in [b64_char (drop_bit 18 val), b64_char (drop_bit 12 val), b64_char (drop_bit 6 val)])"
| "EncodeToString [a] =
     (let val = push_bit 16 (ucast a)
      in [b64_char (drop_bit 18 val), b64_char (drop_bit 12 val)])"
| "EncodeToString [] = []"

text \<open>\<^verbatim>\<open>[]byte(s)\<close>: the bytes of a Go string.\<close>

definition bytes_of_string :: "string \<Rightarrow> byte list" where
  "bytes_of_string s = map of_char s"

text \<open>\<^verbatim>\<open>sha256.Sum256\<close>, as FIPS 180-4 defines it.\<close>

definition rotr :: "nat \<Rightarrow> u32 \<Rightarrow> u32" where
  "rotr n x = drop_bit n x OR push_bit (32 - n) x"

text \<open>
  The round constants, one row for every four rounds.
\<close>

definition sha_K :: "u32 list" where
  "sha_K = concat [
   [0x428a2f98, 0x71374491, 0xb5c0fbcf, 0xe9b5dba5],
   [0x3956c25b, 0x59f111f1, 0x923f82a4, 0xab1c5ed5],
   [0xd807aa98, 0x12835b01, 0x243185be, 0x550c7dc3],
   [0x72be5d74, 0x80deb1fe, 0x9bdc06a7, 0xc19bf174],
   [0xe49b69c1, 0xefbe4786, 0x0fc19dc6, 0x240ca1cc],
   [0x2de92c6f, 0x4a7484aa, 0x5cb0a9dc, 0x76f988da],
   [0x983e5152, 0xa831c66d, 0xb00327c8, 0xbf597fc7],
   [0xc6e00bf3, 0xd5a79147, 0x06ca6351, 0x14292967],
   [0x27b70a85, 0x2e1b2138, 0x4d2c6dfc, 0x53380d13],
   [0x650a7354, 0x766a0abb, 0x81c2c92e, 0x92722c85],
   [0xa2bfe8a1, 0xa81a664b, 0xc24b8b70, 0xc76c51a3],
   [0xd192e819, 0xd6990624, 0xf40e3585, 0x106aa070],
   [0x19a4c116, 0x1e376c08, 0x2748774c, 0x34b0bcb5],
   [0x391c0cb3, 0x4ed8aa4a, 0x5b9cca4f, 0x682e6ff3],
   [0x748f82ee, 0x78a5636f, 0x84c87814, 0x8cc70208],
   [0x90befffa, 0xa4506ceb, 0xbef9a3f7, 0xc67178f2]]"

definition sha_init :: "u32 list" where
  "sha_init = [0x6a09e667, 0xbb67ae85, 0x3c6ef372, 0xa54ff53a,
               0x510e527f, 0x9b05688c, 0x1f83d9ab, 0x5be0cd19]"

definition be32 :: "byte list \<Rightarrow> u32" where
  "be32 bs = foldl (\<lambda>acc b. push_bit 8 acc OR ucast b) 0 bs"

fun words_of :: "byte list \<Rightarrow> u32 list" where
  "words_of (a # b # c # d # rest) = be32 [a, b, c, d] # words_of rest"
| "words_of _ = []"

definition bytes_of_u32 :: "u32 \<Rightarrow> byte list" where
  "bytes_of_u32 x = [ucast (drop_bit 24 x), ucast (drop_bit 16 x), ucast (drop_bit 8 x), ucast x]"

definition bytes_of_u64 :: "64 word \<Rightarrow> byte list" where
  "bytes_of_u64 x = map (\<lambda>i. ucast (drop_bit (8 * i) x)) [7, 6, 5, 4, 3, 2, 1, 0]"

definition sha_pad :: "byte list \<Rightarrow> byte list" where
  "sha_pad m = m @ [0x80] @ replicate ((119 - length m mod 64) mod 64) 0
                 @ bytes_of_u64 (word_of_nat (8 * length m))"

definition ssig0 :: "u32 \<Rightarrow> u32" where
  "ssig0 x = rotr 7 x XOR rotr 18 x XOR drop_bit 3 x"

definition ssig1 :: "u32 \<Rightarrow> u32" where
  "ssig1 x = rotr 17 x XOR rotr 19 x XOR drop_bit 10 x"

definition bsig0 :: "u32 \<Rightarrow> u32" where
  "bsig0 x = rotr 2 x XOR rotr 13 x XOR rotr 22 x"

definition bsig1 :: "u32 \<Rightarrow> u32" where
  "bsig1 x = rotr 6 x XOR rotr 11 x XOR rotr 25 x"

text \<open>The message schedule, newest word first.\<close>

fun schedule :: "nat \<Rightarrow> u32 list \<Rightarrow> u32 list" where
  "schedule 0 w = w"
| "schedule (Suc n) w =
     schedule n ((ssig1 (w ! 1) + w ! 6 + ssig0 (w ! 14) + w ! 15) # w)"

fun round_step :: "u32 list \<Rightarrow> u32 \<times> u32 \<Rightarrow> u32 list" where
  "round_step [a, b, c, d, e, f, g, h] (k, w) =
     (let t1 = h + bsig1 e + ((e AND f) XOR (NOT e AND g)) + k + w;
          t2 = bsig0 a + ((a AND b) XOR (a AND c) XOR (b AND c))
      in [t1 + t2, a, b, c, d + t1, e, f, g])"
| "round_step s _ = s"

definition compress :: "u32 list \<Rightarrow> byte list \<Rightarrow> u32 list" where
  "compress h block =
     (let w = rev (schedule 48 (rev (words_of block)))
      in map2 (+) h (foldl round_step h (zip sha_K w)))"

fun blocks :: "nat \<Rightarrow> byte list \<Rightarrow> byte list list" where
  "blocks 0 bs = []"
| "blocks (Suc n) bs = take 64 bs # blocks n (drop 64 bs)"

definition Sum256 :: "byte list \<Rightarrow> byte list" where
  "Sum256 m =
     (let p = sha_pad m
      in concat (map bytes_of_u32 (foldl compress sha_init (blocks (length p div 64) p))))"

record PKCEParams =
  Verifier :: string
  Challenge :: string
  Method :: string

text \<open>
  \<^verbatim>\<open>rand.Read(b)\<close> on the \<open>n\<close> zero bytes of \<^verbatim>\<open>make([]byte, n)\<close>: the bytes \<open>r\<close> the
  entropy source delivered are written over the front of the buffer.
\<close>

definition rand_Read :: "nat \<Rightarrow> byte list \<Rightarrow> byte list" where
  "rand_Read n r = take n (r @ replicate n 0)"

text \<open>
  \<^verbatim>\<open>GeneratePKCE\<close>. The argument is what the entropy source did: an error, or the bytes
  it delivered.
\<close>

definition GeneratePKCE :: "rand_error + byte list \<Rightarrow> error + PKCEParams" where
  "GeneratePKCE entropy =
     (case entropy of
        Inl err \<Rightarrow> Inl (ErrGenerateRandomBytes err)
      | Inr r \<Rightarrow>
          (let b = rand_Read 32 r;
               verifier = EncodeToString b;
               sum = Sum256 (bytes_of_string verifier);
               challenge = EncodeToString sum
           in Inr \<lparr>Verifier = verifier, Challenge = challenge, Method = ''S256''\<rparr>))"

definition generateState :: "rand_error + byte list \<Rightarrow> error + string" where
  "generateState entropy =
     (case entropy of
        Inl err \<Rightarrow> Inl (ErrGenerateState err)
      | Inr r \<Rightarrow> Inr (EncodeToString (rand_Read 16 r)))"

section \<open>Token storage records\<close>

record TokenStorage =
  AccessToken :: string
  RefreshToken :: string
  TokenType :: string
  ExpiresAt :: time
  ClientID :: string

text \<open>
  \<^verbatim>\<open>map[string]*TokenStorage\<close>: an association list with one pair for each key; a
  value that is \<open>None\<close> is a nil pointer. The \<open>Tokens\<close> field that is \<open>None\<close> is the nil
  map.
\<close>

type_synonym token_map = "(string \<times> TokenStorage option) list"

record TokenStorageMap =
  Tokens :: "token_map option"

record ErrorResponse =
  Error :: string
  ErrorDescription :: string

text \<open>The anonymous struct \<^verbatim>\<open>tokenResp\<close> of \<^verbatim>\<open>refreshAccessToken\<close>.\<close>

record tokenResp =
  resp_AccessToken :: string
  resp_RefreshToken :: string
  resp_TokenType :: string
  resp_ExpiresIn :: int

definition zero_TokenStorage :: TokenStorage where
  "zero_TokenStorage =
     \<lparr>AccessToken = '''', RefreshToken = '''', TokenType = '''', ExpiresAt = zero_time,
      ClientID = ''''\<rparr>"

definition zero_ErrorResponse :: ErrorResponse where
  "zero_ErrorResponse = \<lparr>Error = '''', ErrorDescription = ''''\<rparr>"

definition zero_tokenResp :: tokenResp where
  "zero_tokenResp =
     \<lparr>resp_AccessToken = '''', resp_RefreshToken = '''', resp_TokenType = '''',
      resp_ExpiresIn = 0\<rparr>"

section \<open>Decoding and encoding JSON\<close>

text \<open>
  \<^verbatim>\<open>json.Unmarshal\<close> finds the struct field of an object key by its exact name, and
  failing that by its folded name. Folding turns ASCII letters to upper case and every
  other character to the least one of its case orbit; the only characters outside ASCII
  that fold to an ASCII letter are the Kelvin sign (bytes E2 84 AA, to K) and the long s
  (bytes C5 BF, to S). All field names here are ASCII, so \<open>fold_name\<close> leaves every other
  byte as it is: a key holding one never matches.
\<close>

definition fold_byte :: "char \<Rightarrow> char" where
  "fold_byte c =
     (let n = (of_char c :: nat) in if 97 \<le> n \<and> n \<le> 122 then char_of (n - 32) else c)"

fun fold_name :: "string \<Rightarrow> string" where
  "fold_name (a # b # c # rest) =
     (if a = CHR 0xE2 \<and> b = CHR 0x84 \<and> c = CHR 0xAA then CHR ''K'' # fold_name rest
      else if a = CHR 0xC5 \<and> b = CHR 0xBF then CHR ''S'' # fold_name (c # rest)
      else fold_byte a # fold_name (b # c # rest))"
| "fold_name [a, b] =
     (if a = CHR 0xC5 \<and> b = CHR 0xBF then [CHR ''S''] else [fold_byte a, fold_byte b])"
| "fold_name [a] = [fold_byte a]"
| "fold_name [] = []"

definition find_field :: "string list \<Rightarrow> string \<Rightarrow> string option" where
  "find_field names key =
     (if key \<in> set names then Some key
      else find (\<lambda>n. fold_name n = fold_name key) names)"

text \<open>
  A scalar field: \<^verbatim>\<open>null\<close> leaves the field as it is, a value of the wrong kind is an
  error. An \<^verbatim>\<open>int\<close> field takes an integer literal within 64 bits.
\<close>

fun unmarshal_string :: "string \<Rightarrow> json \<Rightarrow> json_error + string" where
  "unmarshal_string cur JNull = Inr cur"
| "unmarshal_string cur (JString s) = Inr s"
| "unmarshal_string cur _ = Inl (UnmarshalTypeError ''string'')"

fun unmarshal_int :: "int \<Rightarrow> json \<Rightarrow> json_error + int" where
  "unmarshal_int cur JNull = Inr cur"
| "unmarshal_int cur (JInt n) =
     (if - (2 ^ 63) \<le> n \<and> n < 2 ^ 63 then Inr n else Inl (UnmarshalTypeError ''int''))"
| "unmarshal_int cur _ = Inl (UnmarshalTypeError ''int'')"

fun unmarshal_time :: "time \<Rightarrow> json \<Rightarrow> json_error + time" where
  "unmarshal_time cur JNull = Inr cur"
| "unmarshal_time cur (JTime t) = Inr t"
| "unmarshal_time cur _ = Inl TimeParseError"

text \<open>
  An object into a struct: the members in order, each into the field its key finds; a
  key that finds none is skipped. \<^verbatim>\<open>json.Unmarshal\<close> goes on after a type error and
  reports the first one at the end; every caller in this program drops the decoded value
  when there is an error, so the model stops at the first error.
\<close>

fun unmarshal_members ::
  "('a \<Rightarrow> string \<Rightarrow> json \<Rightarrow> json_error + 'a) \<Rightarrow> string list \<Rightarrow> 'a \<Rightarrow> (string \<times> json) list
     \<Rightarrow> json_error + 'a" where
  "unmarshal_members setf names x [] = Inr x"
| "unmarshal_members setf names x ((k, v) # ms) =
     (case find_field names k of
        None \<Rightarrow> unmarshal_members setf names x ms
      | Some f \<Rightarrow>
          (case setf x f v of
             Inl e \<Rightarrow> Inl e
           | Inr x' \<Rightarrow> unmarshal_members setf names x' ms))"

definition unmarshal_struct ::
  "('a \<Rightarrow> string \<Rightarrow> json \<Rightarrow> json_error + 'a) \<Rightarrow> string list \<Rightarrow> 'a \<Rightarrow> json
     \<Rightarrow> json_error + 'a" where
  "unmarshal_struct setf names x j =
     (case j of
        JNull \<Rightarrow> Inr x
      | JObject ms \<Rightarrow> unmarshal_members setf names x ms
      | _ \<Rightarrow> Inl (UnmarshalTypeError ''struct''))"

definition TokenStorage_fields :: "string list" where
  "TokenStorage_fields =
     [''access_token'', ''refresh_token'', ''token_type'', ''expires_at'', ''client_id'']"

definition set_TokenStorage_field ::
  "TokenStorage \<Rightarrow> string \<Rightarrow> json \<Rightarrow> json_error + TokenStorage" where
  "set_TokenStorage_field ts f v =
     (if f = ''access_token''
        then map_sum id (\<lambda>s. ts\<lparr>AccessToken := s\<rparr>) (unmarshal_string (AccessToken ts) v)
      else if f = ''refresh_token''
        then map_sum id (\<lambda>s. ts\<lparr>RefreshToken := s\<rparr>) (unmarshal_string (RefreshToken ts) v)
      else if f = ''token_type''
        then map_sum id (\<lambda>s. ts\<lparr>TokenType := s\<rparr>) (unmarshal_string (TokenType ts) v)
      else if f = ''expires_at''
        then map_sum id (\<lambda>t. ts\<lparr>ExpiresAt := t\<rparr>) (unmarshal_time (ExpiresAt ts) v)
      else map_sum id (\<lambda>s. ts\<lparr>ClientID := s\<rparr>) (unmarshal_string (ClientID ts) v))"

text \<open>
  An object into the map: every member into a fresh element, \<^verbatim>\<open>null\<close> being the nil
  pointer; a later member with the same key replaces the earlier one.
\<close>

fun unmarshal_entries :: "token_map \<Rightarrow> (string \<times> json) list \<Rightarrow> json_error + token_map" where
  "unmarshal_entries m [] = Inr m"
| "unmarshal_entries m ((k, v) # ms) =
     (if v = JNull then unmarshal_entries (AList.update k None m) ms
      else
        (case unmarshal_struct set_TokenStorage_field TokenStorage_fields zero_TokenStorage v of
           Inl e \<Rightarrow> Inl e
         | Inr ts \<Rightarrow> unmarshal_entries (AList.update k (Some ts) m) ms))"

definition set_TokenStorageMap_field ::
  "TokenStorageMap \<Rightarrow> string \<Rightarrow> json \<Rightarrow> json_error + TokenStorageMap" where
  "set_TokenStorageMap_field sm f v =
     (case v of
        JNull \<Rightarrow> Inr (sm\<lparr>Tokens := None\<rparr>)
      | JObject ms \<Rightarrow>
          map_sum id (\<lambda>m. sm\<lparr>Tokens := Some m\<rparr>)
            (unmarshal_entries (case Tokens sm of None \<Rightarrow> [] | Some m \<Rightarrow> m) ms)
      | _ \<Rightarrow> Inl (UnmarshalTypeError ''map''))"

text \<open>\<^verbatim>\<open>json.Unmarshal(data, &storageMap)\<close> on the zero \<^verbatim>\<open>TokenStorageMap\<close>.\<close>

definition Unmarshal_TokenStorageMap :: "content \<Rightarrow> json_error + TokenStorageMap" where
  "Unmarshal_TokenStorageMap data =
     (case data of
        Raw _ \<Rightarrow> Inl SyntaxError
      | Doc j \<Rightarrow> unmarshal_struct set_TokenStorageMap_field [''tokens''] \<lparr>Tokens = None\<rparr> j)"

definition set_ErrorResponse_field ::
  "ErrorResponse \<Rightarrow> string \<Rightarrow> json \<Rightarrow> json_error + ErrorResponse" where
  "set_ErrorResponse_field er f v =
     (if f = ''error''
        then map_sum id (\<lambda>s. er\<lparr>Error := s\<rparr>) (unmarshal_string (Error er) v)
      else map_sum id (\<lambda>s. er\<lparr>ErrorDescription := s\<rparr>)
             (unmarshal_string (ErrorDescription er) v))"

definition Unmarshal_ErrorResponse :: "content \<Rightarrow> json_error + ErrorResponse" where
  "Unmarshal_ErrorResponse data =
     (case data of
        Raw _ \<Rightarrow> Inl SyntaxError
      | Doc j \<Rightarrow>
          unmarshal_struct set_ErrorResponse_field [''error'', ''error_description'']
            zero_ErrorResponse j)"

definition tokenResp_fields :: "string list" where
  "tokenResp_fields = [''access_token'', ''refresh_token'', ''token_type'', ''expires_in'']"

definition set_tokenResp_field :: "tokenResp \<Rightarrow> string \<Rightarrow> json \<Rightarrow> json_error + tokenResp" where
  "set_tokenResp_field tr f v =
     (if f = ''access_token''
        then map_sum id (\<lambda>s. tr\<lparr>resp_AccessToken := s\<rparr>)
               (unmarshal_string (resp_AccessToken tr) v)
      else if f = ''refresh_token''
        then map_sum id (\<lambda>s. tr\<lparr>resp_RefreshToken := s\<rparr>)
               (unmarshal_string (resp_RefreshToken tr) v)
      else if f = ''token_type''
        then map_sum id (\<lambda>s. tr\<lparr>resp_TokenType := s\<rparr>)
               (unmarshal_string (resp_TokenType tr) v)
      else map_sum id (\<lambda>n. tr\<lparr>resp_ExpiresIn := n\<rparr>) (unmarshal_int (resp_ExpiresIn tr) v))"

definition Unmarshal_tokenResp :: "content \<Rightarrow> json_error + tokenResp" where
  "Unmarshal_tokenResp data =
     (case data of
        Raw _ \<Rightarrow> Inl SyntaxError
      | Doc j \<Rightarrow> unmarshal_struct set_tokenResp_field tokenResp_fields zero_tokenResp j)"

text \<open>
  \<^verbatim>\<open>json.MarshalIndent\<close>. \<^verbatim>\<open>Time.MarshalJSON\<close> refuses a year outside 0 to 9999, which
  fails the whole call; nothing else in a \<^verbatim>\<open>TokenStorageMap\<close> can fail. An instant of
  the model carries no time zone, so the year is that of the instant in UTC, where Go
  takes the year in the zone of the time value: within a day of the two ends of the
  range the model and Go can differ. Go writes the keys of a map in sorted order; the
  model writes them in the order of the association list.
\<close>

definition marshal_time :: "time \<Rightarrow> json_error + json" where
  "marshal_time t =
     (if - 62167219200 * Second \<le> t \<and> t < 253402300800 * Second then Inr (JTime t)
      else Inl MarshalerError)"

definition marshal_TokenStorage :: "TokenStorage \<Rightarrow> json_error + json" where
  "marshal_TokenStorage ts =
     (case marshal_time (ExpiresAt ts) of
        Inl e \<Rightarrow> Inl e
      | Inr jt \<Rightarrow>
          Inr (JObject
            [(''access_token'', JString (AccessToken ts)),
             (''refresh_token'', JString (RefreshToken ts)),
             (''token_type'', JString (TokenType ts)),
             (''expires_at'', jt),
             (''client_id'', JString (ClientID ts))]))"

fun marshal_entries :: "token_map \<Rightarrow> json_error + (string \<times> json) list" where
  "marshal_entries [] = Inr []"
| "marshal_entries ((k, p) # m) =
     (case (case p of None \<Rightarrow> Inr JNull | Some ts \<Rightarrow> marshal_TokenStorage ts) of
        Inl e \<Rightarrow> Inl e
      | Inr j \<Rightarrow>
          (case marshal_entries m of
             Inl e \<Rightarrow> Inl e
           | Inr js \<Rightarrow> Inr ((k, j) # js)))"

definition MarshalIndent_TokenStorageMap :: "TokenStorageMap \<Rightarrow> json_error + content" where
  "MarshalIndent_TokenStorageMap sm =
     (case Tokens sm of
        None \<Rightarrow> Inr (Doc (JObject [(''tokens'', JNull)]))
      | Some m \<Rightarrow>
          (case marshal_entries m of
             Inl e \<Rightarrow> Inl e
           | Inr js \<Rightarrow> Inr (Doc (JObject [(''tokens'', JObject js)]))))"

section \<open>Configuration\<close>

text \<open>The package-level configuration variables the modelled functions read.\<close>

record config =
  serverURL :: string
  clientID :: string
  clientSecret :: string
  tokenFile :: path

definition isPublicClient :: "config \<Rightarrow> bool" where
  "isPublicClient cfg = (clientSecret cfg = '''')"

section \<open>The file system and the clock\<close>

text \<open>
  The state outside the program: the files with their modification times, the clock, and
  a log of every call the program made with the error it got. \<open>faults\<close> is the
  environment's choice of calls that fail for a reason of its own (permissions, a full
  disk, another process): the call that would be entry \<open>n\<close> of the log fails with
  \<open>faults n\<close> when that is an error, and then changes no file.
\<close>

record file_entry =
  data :: content
  modTime :: time

datatype os_call =
    OpenExcl path
  | WritePid path
  | Close path
  | Stat path
  | Remove path
  | ReadFile path
  | WriteFile path
  | Rename path path
  | Sleep duration

record world =
  fs :: "path \<Rightarrow> file_entry option"
  clock :: time
  pid :: int
  faults :: "nat \<Rightarrow> os_error option"
  trace :: "(os_call \<times> os_error option) list"

definition fault :: "world \<Rightarrow> os_error option" where
  "fault w = faults w (length (trace w))"

definition logged :: "os_call \<Rightarrow> os_error option \<Rightarrow> world \<Rightarrow> world" where
  "logged c r w = w\<lparr>trace := trace w @ [(c, r)]\<rparr>"

text \<open>
  \<^verbatim>\<open>os.OpenFile(p, O_CREATE|O_EXCL|O_WRONLY, 0o600)\<close>: fails when the file exists. The
  handle it returns is modelled by the path.
\<close>

definition os_OpenFile_excl :: "path \<Rightarrow> world \<Rightarrow> (os_error + path) \<times> world" where
  "os_OpenFile_excl p w =
     (case fault w of
        Some e \<Rightarrow> (Inl e, logged (OpenExcl p) (Some e) w)
      | None \<Rightarrow>
          (case fs w p of
             Some f \<Rightarrow> (Inl ErrExist, logged (OpenExcl p) (Some ErrExist) w)
           | None \<Rightarrow>
               (Inr p, logged (OpenExcl p) None
                  (w\<lparr>fs := (fs w)(p \<mapsto> \<lparr>data = Raw '''', modTime = clock w\<rparr>)\<rparr>))))"

text \<open>
  \<^verbatim>\<open>fmt.Fprintf(lockFile, "%d", os.Getpid())\<close>: the decimal text of the process id,
  which is the JSON text of that number. The program ignores the result.
\<close>

definition Fprintf_pid :: "path \<Rightarrow> world \<Rightarrow> world" where
  "Fprintf_pid h w =
     (case fault w of
        Some e \<Rightarrow> logged (WritePid h) (Some e) w
      | None \<Rightarrow>
          (case fs w h of
             None \<Rightarrow> logged (WritePid h) (Some ErrNotExist) w
           | Some f \<Rightarrow>
               logged (WritePid h) None
                 (w\<lparr>fs := (fs w)(h \<mapsto> \<lparr>data = Doc (JInt (pid w)), modTime = clock w\<rparr>)\<rparr>)))"

definition File_Close :: "path \<Rightarrow> world \<Rightarrow> world" where
  "File_Close h w = logged (Close h) None w"

definition os_Stat :: "path \<Rightarrow> world \<Rightarrow> (os_error + time) \<times> world" where
  "os_Stat p w =
     (case fault w of
        Some e \<Rightarrow> (Inl e, logged (Stat p) (Some e) w)
      | None \<Rightarrow>
          (case fs w p of
             None \<Rightarrow> (Inl ErrNotExist, logged (Stat p) (Some ErrNotExist) w)
           | Some f \<Rightarrow> (Inr (modTime f), logged (Stat p) None w)))"

definition os_Remove :: "path \<Rightarrow> world \<Rightarrow> os_error option \<times> world" where
  "os_Remove p w =
     (case fault w of
        Some e \<Rightarrow> (Some e, logged (Remove p) (Some e) w)
      | None \<Rightarrow>
          (case fs w p of
             None \<Rightarrow> (Some ErrNotExist, logged (Remove p) (Some ErrNotExist) w)
           | Some f \<Rightarrow> (None, logged (Remove p) None (w\<lparr>fs := (fs w)(p := None)\<rparr>))))"

definition os_ReadFile :: "path \<Rightarrow> world \<Rightarrow> (os_error + content) \<times> world" where
  "os_ReadFile p w =
     (case fault w of
        Some e \<Rightarrow> (Inl e, logged (ReadFile p) (Some e) w)
      | None \<Rightarrow>
          (case fs w p of
             None \<Rightarrow> (Inl ErrNotExist, logged (ReadFile p) (Some ErrNotExist) w)
           | Some f \<Rightarrow> (Inr (data f), logged (ReadFile p) None w)))"

definition os_WriteFile :: "path \<Rightarrow> content \<Rightarrow> world \<Rightarrow> os_error option \<times> world" where
  "os_WriteFile p d w =
     (case fault w of
        Some e \<Rightarrow> (Some e, logged (WriteFile p) (Some e) w)
      | None \<Rightarrow>
          (None, logged (WriteFile p) None
             (w\<lparr>fs := (fs w)(p \<mapsto> \<lparr>data = d, modTime = clock w\<rparr>)\<rparr>)))"

text \<open>\<^verbatim>\<open>os.Rename\<close> replaces the target in one step, and changes nothing when it fails.\<close>

definition os_Rename :: "path \<Rightarrow> path \<Rightarrow> world \<Rightarrow> os_error option \<times> world" where
  "os_Rename old new w =
     (case fault w of
        Some e \<Rightarrow> (Some e, logged (Rename old new) (Some e) w)
      | None \<Rightarrow>
          (case fs w old of
             None \<Rightarrow> (Some ErrNotExist, logged (Rename old new) (Some ErrNotExist) w)
           | Some f \<Rightarrow>
               (None, logged (Rename old new) None
                  (w\<lparr>fs := ((fs w)(old := None))(new \<mapsto> f)\<rparr>))))"

definition time_Sleep :: "duration \<Rightarrow> world \<Rightarrow> world" where
  "time_Sleep d w = logged (Sleep d) None (w\<lparr>clock := clock w + d\<rparr>)"

text \<open>\<^verbatim>\<open>time.Since(t)\<close>.\<close>

definition time_Since :: "time \<Rightarrow> world \<Rightarrow> duration" where
  "time_Since t w = clock w - t"

section \<open>The advisory file lock\<close>

record fileLock =
  lockFile :: "path option"
  lockPath :: path

definition maxRetries :: nat where "maxRetries = 50"
definition retryDelay :: duration where "retryDelay = 100 * Millisecond"

text \<open>
  One turn of the loop of \<^verbatim>\<open>acquireFileLock\<close>: it returns from the function, or goes
  on to the next turn (\<^verbatim>\<open>continue\<close>).
\<close>

datatype lock_step = Return "error + fileLock" | Continue

definition lock_attempt :: "path \<Rightarrow> world \<Rightarrow> lock_step \<times> world" where
  "lock_attempt lp w =
     (case os_OpenFile_excl lp w of
        (Inr h, w1) \<Rightarrow>
          (Return (Inr \<lparr>lockFile = Some h, lockPath = lp\<rparr>), Fprintf_pid h w1)
      | (Inl err, w1) \<Rightarrow>
          if IsExist err then
            (case os_Stat lp w1 of
               (Inr mtime, w2) \<Rightarrow>
                 if time_Since mtime w2 > 30 * Second then
                   (case os_Remove lp w2 of
                      (Some remErr, w3) \<Rightarrow>
                        if \<not> IsNotExist remErr
                        then (Return (Inl (ErrRemoveStaleLock lp remErr)), w3)
                        else (Continue, w3)
                    | (None, w3) \<Rightarrow> (Continue, w3))
                 else (Continue, time_Sleep retryDelay w2)
             | (Inl statErr, w2) \<Rightarrow> (Continue, time_Sleep retryDelay w2))
          else (Return (Inl (ErrAcquireFileLock err)), w1))"

function acquire_loop :: "nat \<Rightarrow> path \<Rightarrow> world \<Rightarrow> (error + fileLock) \<times> world" where
  "acquire_loop i lp w =
     (if i < maxRetries then
        (case lock_attempt lp w of
           (Return r, w') \<Rightarrow> (r, w')
         | (Continue, w') \<Rightarrow> acquire_loop (i + 1) lp w')
      else (Inl (ErrLockTimeout (int maxRetries * retryDelay)), w))"
  by pat_completeness auto
termination
  by (relation "measure (\<lambda>(i, lp, w). maxRetries - i)") auto

declare acquire_loop.simps [simp del]

definition acquireFileLock :: "path \<Rightarrow> world \<Rightarrow> (error + fileLock) \<times> world" where
  "acquireFileLock filePath w = acquire_loop 0 (filePath @ ''.lock'') w"

definition release :: "fileLock \<Rightarrow> world \<Rightarrow> os_error option \<times> world" where
  "release fl w =
     os_Remove (lockPath fl) (case lockFile fl of None \<Rightarrow> w | Some h \<Rightarrow> File_Close h w)"

section \<open>Token storage\<close>

definition loadTokens :: "config \<Rightarrow> world \<Rightarrow> (error + TokenStorage option) \<times> world" where
  "loadTokens cfg w =
     (case os_ReadFile (tokenFile cfg) w of
        (Inl err, w1) \<Rightarrow> (Inl (ErrOS err), w1)
      | (Inr d, w1) \<Rightarrow>
          (case Unmarshal_TokenStorageMap d of
             Inl e \<Rightarrow> (Inl (ErrParseTokenFile e), w1)
           | Inr storageMap \<Rightarrow>
               (case Tokens storageMap of
                  None \<Rightarrow> (Inl ErrNoTokensInFile, w1)
                | Some m \<Rightarrow>
                    (case map_of m (clientID cfg) of
                       Some storage \<Rightarrow> (Inr storage, w1)
                     | None \<Rightarrow> (Inl (ErrNoTokensForClient (clientID cfg)), w1)))))"

text \<open>
  The part of \<^verbatim>\<open>saveTokens\<close> that reads the existing file: the map the new entry goes
  into. An unreadable file and a nil map give a fresh map, and so does a file that
  \<^verbatim>\<open>json.Unmarshal\<close> rejects.
\<close>

definition existing_tokens :: "os_error + content \<Rightarrow> token_map" where
  "existing_tokens existing =
     (case existing of
        Inl err \<Rightarrow> []
      | Inr d \<Rightarrow>
          (case Unmarshal_TokenStorageMap d of
             Inl unmarshalErr \<Rightarrow> []
           | Inr storageMap \<Rightarrow> (case Tokens storageMap of None \<Rightarrow> [] | Some m \<Rightarrow> m)))"

text \<open>The body of \<^verbatim>\<open>saveTokens\<close> between taking the lock and the deferred release.\<close>

definition saveTokens_locked :: "config \<Rightarrow> TokenStorage \<Rightarrow> world \<Rightarrow> error option \<times> world" where
  "saveTokens_locked cfg storage w =
     (case os_ReadFile (tokenFile cfg) w of
        (existing, w1) \<Rightarrow>
          (let storageMap =
                 \<lparr>Tokens = Some (AList.update (ClientID storage) (Some storage)
                                  (existing_tokens existing))\<rparr>
           in case MarshalIndent_TokenStorageMap storageMap of
                Inl err \<Rightarrow> (Some (ErrJSON err), w1)
              | Inr d \<Rightarrow>
                  (let tempFile = tokenFile cfg @ ''.tmp''
                   in case os_WriteFile tempFile d w1 of
                        (Some err, w2) \<Rightarrow> (Some (ErrWriteTempFile err), w2)
                      | (None, w2) \<Rightarrow>
                          (case os_Rename tempFile (tokenFile cfg) w2 of
                             (Some err, w3) \<Rightarrow>
                               (case os_Remove tempFile w3 of
                                  (Some removeErr, w4) \<Rightarrow>
                                    (Some (ErrRenameAndRemoveTempFile err removeErr), w4)
                                | (None, w4) \<Rightarrow> (Some (ErrRenameTempFile err), w4))
                           | (None, w3) \<Rightarrow> (None, w3)))))"

text \<open>
  \<^verbatim>\<open>saveTokens\<close> writes through its pointer argument when the client id is empty, so
  the model returns the token set as the caller sees it afterwards, next to the error.
\<close>

definition saveTokens ::
  "config \<Rightarrow> TokenStorage \<Rightarrow> world \<Rightarrow> TokenStorage \<times> error option \<times> world" where
  "saveTokens cfg storage0 w =
     (let storage = (if ClientID storage0 = '''' then storage0\<lparr>ClientID := clientID cfg\<rparr>
                     else storage0)
      in case acquireFileLock (tokenFile cfg) w of
           (Inl err, w1) \<Rightarrow> (storage, Some (ErrAcquireLock err), w1)
         | (Inr lock, w1) \<Rightarrow>
             (case saveTokens_locked cfg storage w1 of
                (err, w2) \<Rightarrow> (storage, err, snd (release lock w2))))"

section \<open>Token response validation\<close>

text \<open>
  \<^verbatim>\<open>validateTokenResponse\<close>: \<open>None\<close> is the nil error. \<^verbatim>\<open>len\<close> of a Go string counts
  bytes, as \<open>length\<close> of a \<open>string\<close> does.
\<close>

definition validateTokenResponse :: "string \<Rightarrow> string \<Rightarrow> int \<Rightarrow> error option" where
  "validateTokenResponse accessToken tokenType expiresIn =
     (if accessToken = '''' then Some ErrAccessTokenEmpty
      else if length accessToken < 10 then Some (ErrAccessTokenTooShort (length accessToken))
      else if expiresIn \<le> 0 then Some (ErrExpiresInNotPositive expiresIn)
      else if tokenType \<noteq> '''' \<and> tokenType \<noteq> ''Bearer''
        then Some (ErrUnexpectedTokenType tokenType)
      else None)"

section \<open>Token refresh\<close>

text \<open>
  The request \<^verbatim>\<open>refreshAccessToken\<close> builds, and what the outbound client made of it:
  the request could not be built, the round trip failed, or a response came with a
  status and a body that could be read or not.
\<close>

record http_request =
  req_method :: string
  req_url :: string
  req_content_type :: string
  req_form :: "(string \<times> string) list"

datatype http_outcome =
    CreateFailed http_error
  | DoFailed http_error
  | Response int "http_error + content"

definition StatusOK :: int where "StatusOK = 200"

definition refresh_request :: "config \<Rightarrow> string \<Rightarrow> http_request" where
  "refresh_request cfg refreshToken =
     \<lparr>req_method = ''POST'',
      req_url = serverURL cfg @ ''/oauth/token'',
      req_content_type = ''application/x-www-form-urlencoded'',
      req_form =
        [(''grant_type'', ''refresh_token''), (''refresh_token'', refreshToken),
         (''client_id'', clientID cfg)]
        @ (if \<not> isPublicClient cfg then [(''client_secret'', clientSecret cfg)] else [])\<rparr>"

definition refreshAccessToken ::
  "config \<Rightarrow> (http_request \<Rightarrow> http_outcome) \<Rightarrow> string \<Rightarrow> world
     \<Rightarrow> (error + TokenStorage) \<times> world" where
  "refreshAccessToken cfg client refreshToken w =
     (case client (refresh_request cfg refreshToken) of
        CreateFailed err \<Rightarrow> (Inl (ErrCreateRequest err), w)
      | DoFailed err \<Rightarrow> (Inl (ErrRefreshRequestFailed err), w)
      | Response status (Inl err) \<Rightarrow> (Inl (ErrReadResponse err), w)
      | Response status (Inr body) \<Rightarrow>
          if status \<noteq> StatusOK then
            (case Unmarshal_ErrorResponse body of
               Inr errResp \<Rightarrow>
                 if Error errResp = ''invalid_grant'' \<or> Error errResp = ''invalid_token''
                 then (Inl ErrRefreshTokenExpired, w)
                 else (Inl (ErrServer (Error errResp) (ErrorDescription errResp)), w)
             | Inl jsonErr \<Rightarrow> (Inl (ErrRefreshFailedStatus status body), w))
          else
            (case Unmarshal_tokenResp body of
               Inl err \<Rightarrow> (Inl (ErrParseTokenResponse err), w)
             | Inr tr \<Rightarrow>
                 (case validateTokenResponse (resp_AccessToken tr) (resp_TokenType tr)
                         (resp_ExpiresIn tr) of
                    Some err \<Rightarrow> (Inl (ErrInvalidTokenResponse err), w)
                  | None \<Rightarrow>
                      (let newRefreshToken =
                             (if resp_RefreshToken tr = '''' then refreshToken
                              else resp_RefreshToken tr);
                           storage =
                             \<lparr>AccessToken = resp_AccessToken tr,
                              RefreshToken = newRefreshToken,
                              TokenType = resp_TokenType tr,
                              ExpiresAt = clock w + seconds_duration (resp_ExpiresIn tr),
                              ClientID = clientID cfg\<rparr>
                       in case saveTokens cfg storage w of
                            (storage', saveErr, w') \<Rightarrow> (Inr storage', w')))))"

section \<open>The start of the program\<close>

text \<open>
  The part of \<^verbatim>\<open>main\<close> that tries to reuse or refresh the stored tokens, up to the test
  \<^verbatim>\<open>storage == nil\<close> that decides whether \<^verbatim>\<open>performAuthCodeFlow\<close> is called: the program
  exits, or goes on with a token set, or calls \<^verbatim>\<open>performAuthCodeFlow\<close>. \<open>ctxErr\<close> is what
  \<^verbatim>\<open>ctx.Err()\<close> gives after a failed refresh. The messages printed on the way are left
  out.
\<close>

datatype startup = Exit int | WithTokens TokenStorage | PerformAuthCodeFlow

definition main_startup ::
  "config \<Rightarrow> (http_request \<Rightarrow> http_outcome) \<Rightarrow> string option \<Rightarrow> world
     \<Rightarrow> startup \<times> world" where
  "main_startup cfg client ctxErr w =
     (case loadTokens cfg w of
        (Inr (Some existing), w1) \<Rightarrow>
          if clock w1 < ExpiresAt existing then (WithTokens existing, w1)
          else
            (case refreshAccessToken cfg client (RefreshToken existing) w1 of
               (Inl err, w2) \<Rightarrow>
                 if ctxErr \<noteq> None then (Exit 130, w2) else (PerformAuthCodeFlow, w2)
             | (Inr newStorage, w2) \<Rightarrow> (WithTokens newStorage, w2))
      | (Inr None, w1) \<Rightarrow> (PerformAuthCodeFlow, w1)
      | (Inl err, w1) \<Rightarrow> (PerformAuthCodeFlow, w1))"

section \<open>The callback listener\<close>

text \<open>
  \<^verbatim>\<open>url.Values\<close> and its \<^verbatim>\<open>Get\<close>: the first value of the key, or the empty string
  when the key has none.
\<close>

type_synonym Values = "(string \<times> string list) list"

definition Get :: "Values \<Rightarrow> string \<Rightarrow> string" where
  "Get q key = (case map_of q key of None \<Rightarrow> '''' | Some [] \<Rightarrow> '''' | Some (v # vs) \<Rightarrow> v)"

record callbackResult =
  cb_Storage :: "TokenStorage option"
  cb_Error :: string
  cb_Desc :: string

text \<open>
  \<^verbatim>\<open>writeCallbackPage\<close>: the success page, or the failure page around the escaped
  message.
\<close>

datatype page = SuccessPage | FailurePage string

fun html_EscapeString :: "string \<Rightarrow> string" where
  "html_EscapeString [] = []"
| "html_EscapeString (c # cs) =
     (if c = CHR ''&'' then ''&amp;''
      else if c = CHR ''<'' then ''&lt;''
      else if c = CHR ''>'' then ''&gt;''
      else if c = CHR 0x22 then ''&#34;''
      else if c = CHR 0x27 then ''&#39;''
      else [c]) @ html_EscapeString cs"

definition writeCallbackPage :: "bool \<Rightarrow> string \<Rightarrow> string \<Rightarrow> page" where
  "writeCallbackPage success errCode errDesc =
     (if success then SuccessPage
      else FailurePage (html_EscapeString (if errDesc \<noteq> '''' then errDesc else errCode)))"

text \<open>
  A \<^verbatim>\<open>sync.Once\<close>: not yet entered, inside the one call of its function, or done. A
  \<^verbatim>\<open>Do\<close> that finds it inside the call waits until the call has returned.
\<close>

datatype once_state = Fresh | Running | Done

text \<open>
  Where one handler goroutine of \<^verbatim>\<open>/callback\<close> stands: the request has arrived; it is
  about to call \<^verbatim>\<open>exchangeOnce.Do\<close> with the code; it is inside \<^verbatim>\<open>exchangeFn\<close>;
  \<^verbatim>\<open>exchangeOnce.Do\<close> has returned; it has written its page and is about to call
  \<^verbatim>\<open>sendResult\<close>; it is inside \<^verbatim>\<open>once.Do\<close> at the channel send; it has returned, which
  completes the HTTP response.
\<close>

datatype handler_pc =
    Arrived Values
  | AtExchangeOnce string
  | InExchange string
  | AfterExchange
  | AtSendResult callbackResult
  | InSend callbackResult
  | Finished

record conn =
  pc :: handler_pc
  response :: "page option"

datatype main_state = Waiting | Returned "error + TokenStorage option"

text \<open>
  One invocation of \<^verbatim>\<open>startCallbackServer\<close> after the listener is bound: the variables
  its closures share, the handler goroutines, and the caller waiting in the
  \<^verbatim>\<open>select\<close>. \<open>sent\<close>, \<open>received\<close> and \<open>exchange_calls\<close> record what happened: the values
  sent on \<^verbatim>\<open>resultCh\<close>, the values the caller took from it, and the calls of \<^verbatim>\<open>exchangeFn\<close>,
  each with the handler that made it and the code it passed.
\<close>

record listener =
  expectedState :: string
  resultCh :: "callbackResult list"
  once :: once_state
  exchangeOnce :: once_state
  exchangeStorage :: "TokenStorage option"
  exchangeErr :: "string option"
  conns :: "conn list"
  main :: main_state
  sent :: "callbackResult list"
  received :: "callbackResult list"
  exchange_calls :: "(nat \<times> string) list"

definition listening :: "string \<Rightarrow> listener" where
  "listening st =
     \<lparr>expectedState = st, resultCh = [], once = Fresh, exchangeOnce = Fresh,
      exchangeStorage = None, exchangeErr = None, conns = [], main = Waiting,
      sent = [], received = [], exchange_calls = []\<rparr>"

definition callbackTimeout :: duration where "callbackTimeout = 5 * Minute"

text \<open>
  The handler from its start to its first shared action: the three checks in the order
  of the source, each failure writing its page before \<^verbatim>\<open>sendResult\<close>.
\<close>

definition handler_start :: "string \<Rightarrow> Values \<Rightarrow> conn" where
  "handler_start expected q =
     (let oauthErr = Get q ''error'' in
      if oauthErr \<noteq> '''' then
        (let desc = Get q ''error_description'' in
         \<lparr>pc = AtSendResult \<lparr>cb_Storage = None, cb_Error = oauthErr, cb_Desc = desc\<rparr>,
          response = Some (writeCallbackPage False oauthErr desc)\<rparr>)
      else
        (let state = Get q ''state'' in
         if state \<noteq> expected then
           \<lparr>pc = AtSendResult \<lparr>cb_Storage = None, cb_Error = ''state_mismatch'',
                               cb_Desc = ''state parameter mismatch''\<rparr>,
            response = Some (writeCallbackPage False ''state_mismatch''
                         ''State parameter does not match. Possible CSRF attack.'')\<rparr>
         else
           (let code = Get q ''code'' in
            if code = '''' then
              \<lparr>pc = AtSendResult \<lparr>cb_Storage = None, cb_Error = ''missing_code'',
                                  cb_Desc = ''code parameter missing''\<rparr>,
               response = Some (writeCallbackPage False ''missing_code''
                            ''No authorization code in callback.'')\<rparr>
            else \<lparr>pc = AtExchangeOnce code, response = None\<rparr>)))"

text \<open>The handler after \<^verbatim>\<open>exchangeOnce.Do\<close> has returned.\<close>

definition after_exchange :: "TokenStorage option \<Rightarrow> string option \<Rightarrow> conn" where
  "after_exchange storage err =
     (case err of
        Some msg \<Rightarrow>
          \<lparr>pc = AtSendResult \<lparr>cb_Storage = None, cb_Error = ''token_exchange_failed'',
                              cb_Desc = msg\<rparr>,
           response = Some (writeCallbackPage False ''token_exchange_failed'' msg)\<rparr>
      | None \<Rightarrow>
          \<lparr>pc = AtSendResult \<lparr>cb_Storage = storage, cb_Error = '''', cb_Desc = ''''\<rparr>,
           response = Some (writeCallbackPage True '''' '''')\<rparr>)"

text \<open>What the caller returns for the result it received.\<close>

definition result_value :: "callbackResult \<Rightarrow> error + TokenStorage option" where
  "result_value r =
     (if cb_Error r \<noteq> '''' then
        (if cb_Desc r \<noteq> '''' then Inl (ErrCallback (cb_Error r) (cb_Desc r))
         else Inl (ErrCallbackCode (cb_Error r)))
      else Inr (cb_Storage r))"

text \<open>
  The scheduler's choices: a request reaches \<^verbatim>\<open>/callback\<close> and gets a handler
  goroutine; handler \<open>i\<close> runs up to its next shared action; the caller takes a result
  from the channel; the context is cancelled; the timeout fires.
\<close>

datatype event = Request Values | Run nat | Receive | Cancel string | Timeout

text \<open>
  \<^verbatim>\<open>exchangeFn\<close> gives the token set pointer and the message of the error it returns,
  for the code it is called with.
\<close>

type_synonym exchange_fn = "string \<Rightarrow> TokenStorage option \<times> string option"

definition set_conn :: "nat \<Rightarrow> conn \<Rightarrow> listener \<Rightarrow> listener" where
  "set_conn i c s = s\<lparr>conns := (conns s)[i := c]\<rparr>"

text \<open>
  One step of handler \<open>i\<close>. A handler that has to wait (for a \<^verbatim>\<open>sync.Once\<close> that is
  inside its call, or for room in the channel) leaves the state as it is.
\<close>

definition run_handler :: "exchange_fn \<Rightarrow> nat \<Rightarrow> listener \<Rightarrow> listener" where
  "run_handler exchangeFn i s =
     (case pc (conns s ! i) of
        Arrived q \<Rightarrow> set_conn i (handler_start (expectedState s) q) s
      | AtExchangeOnce code \<Rightarrow>
          (case exchangeOnce s of
             Fresh \<Rightarrow>
               set_conn i ((conns s ! i)\<lparr>pc := InExchange code\<rparr>)
                 (s\<lparr>exchangeOnce := Running, exchange_calls := exchange_calls s @ [(i, code)]\<rparr>)
           | Running \<Rightarrow> s
           | Done \<Rightarrow> set_conn i ((conns s ! i)\<lparr>pc := AfterExchange\<rparr>) s)
      | InExchange code \<Rightarrow>
          set_conn i ((conns s ! i)\<lparr>pc := AfterExchange\<rparr>)
            (s\<lparr>exchangeStorage := fst (exchangeFn code), exchangeErr := snd (exchangeFn code),
               exchangeOnce := Done\<rparr>)
      | AfterExchange \<Rightarrow> set_conn i (after_exchange (exchangeStorage s) (exchangeErr s)) s
      | AtSendResult r \<Rightarrow>
          (case once s of
             Fresh \<Rightarrow> set_conn i ((conns s ! i)\<lparr>pc := InSend r\<rparr>) (s\<lparr>once := Running\<rparr>)
           | Running \<Rightarrow> s
           | Done \<Rightarrow> set_conn i ((conns s ! i)\<lparr>pc := Finished\<rparr>) s)
      | InSend r \<Rightarrow>
          if length (resultCh s) < 1 then
            set_conn i ((conns s ! i)\<lparr>pc := Finished\<rparr>)
              (s\<lparr>resultCh := resultCh s @ [r], sent := sent s @ [r], once := Done\<rparr>)
          else s
      | Finished \<Rightarrow> s)"

definition step :: "exchange_fn \<Rightarrow> listener \<Rightarrow> event \<Rightarrow> listener" where
  "step exchangeFn s e =
     (case e of
        Request q \<Rightarrow> s\<lparr>conns := conns s @ [\<lparr>pc = Arrived q, response = None\<rparr>]\<rparr>
      | Run i \<Rightarrow> if i < length (conns s) then run_handler exchangeFn i s else s
      | Receive \<Rightarrow>
          (case (main s, resultCh s) of
             (Waiting, r # rest) \<Rightarrow>
               s\<lparr>resultCh := rest, received := received s @ [r],
                 main := Returned (result_value r)\<rparr>
           | _ \<Rightarrow> s)
      | Cancel err \<Rightarrow>
          (case main s of
             Waiting \<Rightarrow> s\<lparr>main := Returned (Inl (ErrContext err))\<rparr>
           | _ \<Rightarrow> s)
      | Timeout \<Rightarrow>
          (case main s of
             Waiting \<Rightarrow> s\<lparr>main := Returned (Inl (ErrCallbackTimeout callbackTimeout))\<rparr>
           | _ \<Rightarrow> s))"

text \<open>A schedule, run from left to right.\<close>

definition run :: "exchange_fn \<Rightarrow> event list \<Rightarrow> listener \<Rightarrow> listener" where
  "run exchangeFn sched s = foldl (step exchangeFn) s sched"

text \<open>
  \<^verbatim>\<open>startCallbackServer\<close> under a schedule: the bind error, or what the caller has
  returned once the schedule is through; \<open>None\<close> when it is still waiting.
\<close>

definition startCallbackServer ::
  "int \<Rightarrow> string \<Rightarrow> exchange_fn \<Rightarrow> string option \<Rightarrow> event list
     \<Rightarrow> (error + TokenStorage option) option" where
  "startCallbackServer port expected exchangeFn listenErr sched =
     (case listenErr of
        Some err \<Rightarrow> Some (Inl (ErrStartCallbackServer port err))
      | None \<Rightarrow>
          (case main (run exchangeFn sched (listening expected)) of
             Waiting \<Rightarrow> None
           | Returned r \<Rightarrow> Some r))"

text \<open>One round in which every handler gets a turn, and \<open>n\<close> such rounds.\<close>

definition round :: "listener \<Rightarrow> event list" where
  "round s = map Run [0..<length (conns s)]"

definition rounds :: "nat \<Rightarrow> listener \<Rightarrow> event list" where
  "rounds n s = concat (replicate n (round s))"

section \<open>Reading the log\<close>

text \<open>The calls the program made between two states of the world.\<close>

definition events_since :: "world \<Rightarrow> world \<Rightarrow> (os_call \<times> os_error option) list" where
  "events_since w w' = drop (length (trace w)) (trace w')"

fun is_OpenExcl :: "os_call \<times> os_error option \<Rightarrow> bool" where
  "is_OpenExcl (OpenExcl p, r) = True"
| "is_OpenExcl _ = False"

fun is_Sleep :: "os_call \<times> os_error option \<Rightarrow> bool" where
  "is_Sleep (Sleep d, r) = True"
| "is_Sleep _ = False"

text \<open>The calls that concern the lock file \<open>lp\<close>, and the pauses.\<close>

fun lock_event :: "path \<Rightarrow> os_call \<times> os_error option \<Rightarrow> bool" where
  "lock_event lp (OpenExcl p, r) = (p = lp)"
| "lock_event lp (WritePid p, r) = (p = lp)"
| "lock_event lp (Close p, r) = (p = lp)"
| "lock_event lp (Stat p, r) = (p = lp)"
| "lock_event lp (Remove p, r) = (p = lp)"
| "lock_event lp (Sleep d, r) = True"
| "lock_event lp _ = False"

text \<open>
  A failed attempt after which the loop goes on: the file was there, and if the program
  tried to remove it as stale, the removal worked or found it gone.
\<close>

fun retry_event :: "os_call \<times> os_error option \<Rightarrow> bool" where
  "retry_event (OpenExcl p, r) = (r = Some ErrExist)"
| "retry_event (Remove p, r) = (r = None \<or> r = Some ErrNotExist)"
| "retry_event _ = True"



text \<open>
  What a stretch of the program does that only works on the lock file \<open>lp\<close>: its calls
  are calls on \<open>lp\<close> and pauses, and every other file is as before.
\<close>

definition lock_only :: "path \<Rightarrow> world \<Rightarrow> world \<Rightarrow> bool" where
  "lock_only lp w w' =
     (\<exists>evs. trace w' = trace w @ evs \<and> (\<forall>ev\<in>set evs. lock_event lp ev)
        \<and> (\<forall>p. p \<noteq> lp \<longrightarrow> fs w' p = fs w p) \<and> faults w' = faults w \<and> pid w' = pid w)"

section \<open>Reading the state of the listener\<close>

fun is_InSend :: "handler_pc \<Rightarrow> bool" where
  "is_InSend (InSend r) = True"
| "is_InSend _ = False"

fun is_InExchange :: "handler_pc \<Rightarrow> bool" where
  "is_InExchange (InExchange c) = True"
| "is_InExchange _ = False"

text \<open>The handler has written its page.\<close>

fun page_written :: "handler_pc \<Rightarrow> bool" where
  "page_written (AtSendResult r) = True"
| "page_written (InSend r) = True"
| "page_written Finished = True"
| "page_written _ = False"

text \<open>The number of steps a handler has left at most.\<close>

fun rank :: "handler_pc \<Rightarrow> nat" where
  "rank (Arrived q) = 6"
| "rank (AtExchangeOnce c) = 5"
| "rank (InExchange c) = 4"
| "rank AfterExchange = 3"
| "rank (AtSendResult r) = 2"
| "rank (InSend r) = 1"
| "rank Finished = 0"

definition count_pc :: "(handler_pc \<Rightarrow> bool) \<Rightarrow> listener \<Rightarrow> nat" where
  "count_pc P s = sum_list (map (\<lambda>c. if P (pc c) then 1 else 0) (conns s))"

definition total_rank :: "listener \<Rightarrow> nat" where
  "total_rank s = sum_list (map (\<lambda>c. rank (pc c)) (conns s))"

text \<open>
  What holds of the shared variables in every state the listener reaches: each
  \<^verbatim>\<open>sync.Once\<close> is inside its call exactly while one handler is, the channel holds what
  was sent and not yet received, and the log of sends and of exchange calls is empty
  before the \<^verbatim>\<open>sync.Once\<close> is entered and has one entry once it is done.
\<close>

definition consistent :: "listener \<Rightarrow> bool" where
  "consistent s =
     (count_pc is_InSend s = (if once s = Running then 1 else 0)
      \<and> count_pc is_InExchange s = (if exchangeOnce s = Running then 1 else 0)
      \<and> length (sent s) = (if once s = Done then 1 else 0)
      \<and> length (exchange_calls s) = (if exchangeOnce s = Fresh then 0 else 1)
      \<and> sent s = received s @ resultCh s
      \<and> (main s = Waiting \<longrightarrow> received s = [])
      \<and> (\<forall>c\<in>set (conns s). page_written (pc c) \<longrightarrow> response c \<noteq> None))"

text \<open>A handler that does not have to wait.\<close>

fun can_move :: "listener \<Rightarrow> handler_pc \<Rightarrow> bool" where
  "can_move s (AtExchangeOnce c) = (exchangeOnce s \<noteq> Running)"
| "can_move s (AtSendResult r) = (once s \<noteq> Running)"
| "can_move s (InSend r) = (resultCh s = [])"
| "can_move s Finished = False"
| "can_move s _ = True"

text \<open>The calls of \<^verbatim>\<open>exchangeFn\<close> that handler \<open>i\<close> made.\<close>

definition calls_by :: "nat \<Rightarrow> listener \<Rightarrow> (nat \<times> string) list" where
  "calls_by i s = filter (\<lambda>c. fst c = i) (exchange_calls s)"

text \<open>
  A handler that has no call of \<^verbatim>\<open>exchangeOnce.Do\<close> ahead: its request fails one of
  the three checks, or it is past the call.
\<close>

fun no_exchange_ahead :: "string \<Rightarrow> handler_pc \<Rightarrow> bool" where
  "no_exchange_ahead e (Arrived q) =
     (Get q ''error'' \<noteq> '''' \<or> Get q ''state'' \<noteq> e \<or> Get q ''code'' = '''')"
| "no_exchange_ahead e (AtExchangeOnce c) = False"
| "no_exchange_ahead e (InExchange c) = False"
| "no_exchange_ahead e _ = True"

section \<open>Sample inputs\<close>

text \<open>The clients and token sets of the program's tests, and some worlds to run them in.\<close>

definition cfg_a :: config where
  "cfg_a = \<lparr>serverURL = ''http://localhost:8080'', clientID = ''client-a'',
            clientSecret = '''', tokenFile = ''tokens.json''\<rparr>"

definition cfg_b :: config where
  "cfg_b = \<lparr>serverURL = ''http://localhost:8080'', clientID = ''client-b'',
            clientSecret = '''', tokenFile = ''tokens.json''\<rparr>"


definition token_b :: TokenStorage where
  "token_b = \<lparr>AccessToken = ''token-client-b'', RefreshToken = ''refresh-client-b'',
              TokenType = ''Bearer'', ExpiresAt = 4600 * Second, ClientID = ''client-b''\<rparr>"

definition entry_a :: json where
  "entry_a = JObject
     [(''access_token'', JString ''token-client-a''),
      (''refresh_token'', JString ''refresh-client-a''),
      (''token_type'', JString ''Bearer''),
      (''expires_at'', JTime (4600 * Second)),
      (''client_id'', JString ''client-a'')]"

text \<open>A token file that holds the entry of \<open>client-a\<close>.\<close>

definition store_a :: content where
  "store_a = Doc (JObject [(''tokens'', JObject [(''client-a'', entry_a)])])"

text \<open>A token file in which the access token of \<open>client-a\<close> ran out at second 900.\<close>

definition store_expired :: content where
  "store_expired =
     Doc (JObject [(''tokens'', JObject [(''client-a'', JObject
       [(''access_token'', JString ''token-client-a''),
        (''refresh_token'', JString ''refresh-client-a''),
        (''token_type'', JString ''Bearer''),
        (''expires_at'', JTime (900 * Second)),
        (''client_id'', JString ''client-a'')])])])"


text \<open>A world with the given files and the given failing calls, at second 1000.\<close>

definition world_of :: "(path \<Rightarrow> file_entry option) \<Rightarrow> (nat \<Rightarrow> os_error option) \<Rightarrow> world" where
  "world_of files fl = \<lparr>fs = files, clock = 1000 * Second, pid = 4242, faults = fl, trace = []\<rparr>"

definition no_faults :: "nat \<Rightarrow> os_error option" where
  "no_faults n = None"

text \<open>The \<open>n\<close>-th call of the program fails with \<open>e\<close>, counting from 0.\<close>

definition fault_at :: "nat \<Rightarrow> os_error \<Rightarrow> nat \<Rightarrow> os_error option" where
  "fault_at n e k = (if k = n then Some e else None)"

text \<open>A lock file written at second \<open>t\<close> by process 999.\<close>

definition lock_from :: "int \<Rightarrow> path \<Rightarrow> file_entry option" where
  "lock_from t = Map.empty (''tokens.json.lock'' \<mapsto> \<lparr>data = Doc (JInt 999), modTime = t * Second\<rparr>)"

definition with_store :: "content \<Rightarrow> path \<Rightarrow> file_entry option" where
  "with_store d = Map.empty (''tokens.json'' \<mapsto> \<lparr>data = d, modTime = 900 * Second\<rparr>)"

text \<open>
  Outbound clients that hand back the same response for every request: the status and
  the body of the authorization server's answer.
\<close>

definition server_says :: "int \<Rightarrow> content \<Rightarrow> http_request \<Rightarrow> http_outcome" where
  "server_says status body req = Response status (Inr body)"

definition invalid_grant_body :: content where
  "invalid_grant_body =
     Doc (JObject [(''error'', JString ''invalid_grant''),
                   (''error_description'', JString ''Refresh token expired'')])"

definition invalid_client_body :: content where
  "invalid_client_body =
     Doc (JObject [(''error'', JString ''invalid_client''),
                   (''error_description'', JString ''Client authentication failed'')])"

text \<open>A refresh response that carries no new refresh token, and one that does.\<close>

definition fixed_mode_body :: content where
  "fixed_mode_body =
     Doc (JObject [(''access_token'', JString ''new-access-token''),
                   (''token_type'', JString ''Bearer''),
                   (''expires_in'', JInt 3600)])"

definition rotating_body :: content where
  "rotating_body =
     Doc (JObject [(''access_token'', JString ''new-access-token''),
                   (''refresh_token'', JString ''new-refresh-token''),
                   (''token_type'', JString ''Bearer''),
                   (''expires_in'', JInt 3600)])"

text \<open>The exchange function and the callback query of the program's tests.\<close>

definition mockExchangeFn :: exchange_fn where
  "mockExchangeFn code =
     (Some \<lparr>AccessToken = ''mock-access-token'', RefreshToken = ''mock-refresh-token'',
            TokenType = ''Bearer'', ExpiresAt = 4600 * Second, ClientID = ''''\<rparr>, None)"

definition callback_query :: "string \<Rightarrow> string \<Rightarrow> Values" where
  "callback_query code state = [(''code'', [code]), (''state'', [state])]"

text \<open>
  The double callback of the program's test: two requests with the right state and a
  code, their handlers interleaved; the first handler sends its result and the caller
  receives it before the second handler gets to \<^verbatim>\<open>sendResult\<close>.
\<close>

definition double_callback :: "event list" where
  "double_callback =
     [Request (callback_query ''mycode'' ''test-state-double''),
      Request (callback_query ''mycode'' ''test-state-double''),
      Run 0, Run 1, Run 0, Run 1, Run 0, Run 1, Run 0, Run 0, Run 0, Receive, Run 1]"

text \<open>Two requests one after the other, with different codes.\<close>

definition two_codes :: "event list" where
  "two_codes =
     [Request (callback_query ''code-1'' ''st''),
      Run 0, Run 0, Run 0, Run 0, Run 0, Run 0,
      Request (callback_query ''code-2'' ''st''),
      Run 1, Run 1, Run 1, Run 1, Run 1, Run 1]"

section \<open>Properties of the file lock\<close>

lemma lock_only_refl: "lock_only lp w w"
  by (simp add: lock_only_def)

lemma lock_only_trans: "lock_only lp w w1 \<Longrightarrow> lock_only lp w1 w2 \<Longrightarrow> lock_only lp w w2"
  by (fastforce simp: lock_only_def)

lemma lock_only_open: "lock_only lp w (snd (os_OpenFile_excl lp w))"
  by (auto simp: lock_only_def os_OpenFile_excl_def logged_def split: option.splits)

lemma lock_only_pid: "lock_only lp w (Fprintf_pid lp w)"
  by (auto simp: lock_only_def Fprintf_pid_def logged_def split: option.splits)

lemma lock_only_stat: "lock_only lp w (snd (os_Stat lp w))"
  by (auto simp: lock_only_def os_Stat_def logged_def split: option.splits)

lemma lock_only_remove: "lock_only lp w (snd (os_Remove lp w))"
  by (auto simp: lock_only_def os_Remove_def logged_def split: option.splits)

lemma lock_only_sleep: "lock_only lp w (time_Sleep d w)"
  by (auto simp: lock_only_def time_Sleep_def logged_def)

lemma lock_only_close: "lock_only lp w (File_Close lp w)"
  by (auto simp: lock_only_def File_Close_def logged_def)

lemma open_handle: "os_OpenFile_excl lp w = (Inr h, w1) \<Longrightarrow> h = lp"
  by (auto simp: os_OpenFile_excl_def split: option.splits)

lemma lock_only_attempt: "lock_only lp w (snd (lock_attempt lp w))"
proof -
  obtain r1 w1 where o: "os_OpenFile_excl lp w = (r1, w1)" by fastforce
  have l1: "lock_only lp w w1" using lock_only_open [of lp w] o by simp
  obtain r2 w2 where s: "os_Stat lp w1 = (r2, w2)" by fastforce
  have l2: "lock_only lp w w2" using lock_only_stat [of lp w1] s l1 lock_only_trans by fastforce
  obtain r3 w3 where r: "os_Remove lp w2 = (r3, w3)" by fastforce
  have l3: "lock_only lp w w3" using lock_only_remove [of lp w2] r l2 lock_only_trans by fastforce
  have l4: "lock_only lp w (time_Sleep retryDelay w2)"
    using lock_only_sleep l2 lock_only_trans by blast
  have l5: "lock_only lp w (Fprintf_pid lp w1)"
    using lock_only_pid l1 lock_only_trans by blast
  show ?thesis
    using o s r l1 l2 l3 l4 l5 open_handle [of lp w]
    by (auto simp: lock_attempt_def split: sum.splits option.splits)
qed

lemma lock_only_loop: "lock_only lp w (snd (acquire_loop i lp w))"
proof (induction i lp w rule: acquire_loop.induct)
  case (1 i lp w)
  show ?case
  proof (cases "i < maxRetries")
    case False
    then show ?thesis by (simp add: acquire_loop.simps [of i] lock_only_refl)
  next
    case True
    obtain r w' where a: "lock_attempt lp w = (r, w')" by fastforce
    have l: "lock_only lp w w'" using lock_only_attempt [of lp w] a by simp
    show ?thesis
    proof (cases r)
      case (Return x)
      then show ?thesis using True a l by (simp add: acquire_loop.simps [of i])
    next
      case Continue
      then have "lock_only lp w' (snd (acquire_loop (i + 1) lp w'))"
        using "1.IH" True a by simp
      then have "lock_only lp w (snd (acquire_loop (i + 1) lp w'))"
        using l lock_only_trans by blast
      then show ?thesis using True a Continue by (simp add: acquire_loop.simps [of i])
    qed
  qed
qed

lemma attempt_events:
  "lock_attempt lp w = (r, w') \<Longrightarrow>
     \<exists>evs. trace w' = trace w @ evs \<and> length (filter is_OpenExcl evs) = 1 \<and>
       (case r of
          Continue \<Rightarrow> (\<forall>ev\<in>set evs. retry_event ev)
        | Return x \<Rightarrow> (\<exists>ev\<in>set evs. \<not> retry_event ev) \<and> (\<forall>d. x \<noteq> Inl (ErrLockTimeout d)))"
  by (auto simp: lock_attempt_def os_OpenFile_excl_def os_Stat_def os_Remove_def Fprintf_pid_def
        time_Sleep_def logged_def fault_def IsExist_def IsNotExist_def
      split: option.splits if_splits sum.splits)

lemma events_since_append: "trace w' = trace w @ evs \<Longrightarrow> events_since w w' = evs"
  by (simp add: events_since_def)

lemma loop_events:
  "acquire_loop i lp w = (r, w') \<Longrightarrow>
     \<exists>evs. trace w' = trace w @ evs \<and> length (filter is_OpenExcl evs) \<le> maxRetries - i \<and>
       ((r = Inl (ErrLockTimeout (int maxRetries * retryDelay))) =
          (length (filter is_OpenExcl evs) = maxRetries - i \<and> (\<forall>ev\<in>set evs. retry_event ev)))
       \<and> (\<forall>d. r = Inl (ErrLockTimeout d) \<longrightarrow> d = int maxRetries * retryDelay)"
proof (induction i lp w arbitrary: r w' rule: acquire_loop.induct)
  case (1 i lp w)
  show ?case
  proof (cases "i < maxRetries")
    case False
    then show ?thesis using "1.prems" by (auto simp: acquire_loop.simps [of i])
  next
    case True
    obtain a w1 where a: "lock_attempt lp w = (a, w1)" by fastforce
    from attempt_events [OF a] obtain evs1 where
      e1: "trace w1 = trace w @ evs1" "length (filter is_OpenExcl evs1) = 1"
      and c1: "case a of
          Continue \<Rightarrow> (\<forall>ev\<in>set evs1. retry_event ev)
        | Return x \<Rightarrow> (\<exists>ev\<in>set evs1. \<not> retry_event ev) \<and> (\<forall>d. x \<noteq> Inl (ErrLockTimeout d))"
      by blast
    show ?thesis
    proof (cases a)
      case (Return x)
      then have "r = x" "w' = w1" using "1.prems" True a by (simp_all add: acquire_loop.simps [of i])
      then show ?thesis using e1 c1 Return True by auto
    next
      case Continue
      then have rec: "acquire_loop (i + 1) lp w1 = (r, w')"
        using "1.prems" True a by (simp add: acquire_loop.simps [of i])
      from "1.IH" [OF True a [symmetric] _ rec] Continue obtain evs2 where
        e2: "trace w' = trace w1 @ evs2"
          "length (filter is_OpenExcl evs2) \<le> maxRetries - (i + 1)"
          "(r = Inl (ErrLockTimeout (int maxRetries * retryDelay))) =
             (length (filter is_OpenExcl evs2) = maxRetries - (i + 1) \<and> (\<forall>ev\<in>set evs2. retry_event ev))"
          "\<forall>d. r = Inl (ErrLockTimeout d) \<longrightarrow> d = int maxRetries * retryDelay"
        by auto
      have "trace w' = trace w @ (evs1 @ evs2)" using e1 e2 by simp
      moreover have "length (filter is_OpenExcl (evs1 @ evs2)) \<le> maxRetries - i"
        using e1 e2 True by simp
      moreover have "(r = Inl (ErrLockTimeout (int maxRetries * retryDelay))) =
          (length (filter is_OpenExcl (evs1 @ evs2)) = maxRetries - i \<and>
           (\<forall>ev\<in>set (evs1 @ evs2). retry_event ev))"
        using e1 e2 c1 Continue True by auto
      ultimately show ?thesis using e2(4) by blast
    qed
  qed
qed

lemmas os_defs =
  os_OpenFile_excl_def os_Stat_def os_Remove_def os_ReadFile_def os_WriteFile_def os_Rename_def
  Fprintf_pid_def File_Close_def time_Sleep_def time_Since_def logged_def fault_def
  IsExist_def IsNotExist_def release_def

text \<open>What one turn of the loop does, by the state of the lock file.\<close>

lemma attempt_created:
  "fault w = None \<Longrightarrow> fs w lp = None \<Longrightarrow>
     fst (lock_attempt lp w) = Return (Inr \<lparr>lockFile = Some lp, lockPath = lp\<rparr>)
     \<and> fs (snd (lock_attempt lp w)) lp \<noteq> None"
  by (auto simp: lock_attempt_def os_defs split: option.splits)

lemma attempt_stale:
  "\<forall>n. faults w n = None \<Longrightarrow> fs w lp = Some fl \<Longrightarrow> 30 * Second < clock w - modTime fl \<Longrightarrow>
     fst (lock_attempt lp w) = Continue
     \<and> fs (snd (lock_attempt lp w)) lp = None
     \<and> filter is_Sleep (events_since w (snd (lock_attempt lp w))) = []"
  by (simp add: lock_attempt_def os_defs events_since_def)

lemma attempt_fresh:
  "\<forall>n. faults w n = None \<Longrightarrow> fs w lp = Some fl \<Longrightarrow> clock w - modTime fl \<le> 30 * Second \<Longrightarrow>
     fst (lock_attempt lp w) = Continue
     \<and> fs (snd (lock_attempt lp w)) = fs w
     \<and> filter is_Sleep (events_since w (snd (lock_attempt lp w))) = [(Sleep (100 * Millisecond), None)]"
  by (simp add: lock_attempt_def os_defs events_since_def retryDelay_def)

lemma attempt_open_error:
  "fault w = Some e \<Longrightarrow> e \<noteq> ErrExist \<Longrightarrow>
     fst (lock_attempt lp w) = Return (Inl (ErrAcquireFileLock e))"
  by (simp add: lock_attempt_def os_defs)

lemma attempt_remove_error:
  "fs w lp = Some fl \<Longrightarrow> 30 * Second < clock w - modTime fl \<Longrightarrow>
   faults w (length (trace w)) = None \<Longrightarrow> faults w (Suc (length (trace w))) = None \<Longrightarrow>
   faults w (Suc (Suc (length (trace w)))) = Some e \<Longrightarrow> e \<noteq> ErrNotExist \<Longrightarrow>
     fst (lock_attempt lp w) = Return (Inl (ErrRemoveStaleLock lp e))
     \<and> fs (snd (lock_attempt lp w)) lp = fs w lp"
  by (simp add: lock_attempt_def os_defs)

lemma loop_exhausted:
  "acquire_loop maxRetries lp w = (Inl (ErrLockTimeout (5 * Second)), w)"
  by (subst acquire_loop.simps) (simp add: maxRetries_def retryDelay_def Millisecond_def Second_def)

lemma loop_return_fst:
  "i < maxRetries \<Longrightarrow> fst (lock_attempt lp w) = Return r \<Longrightarrow>
     acquire_loop i lp w = (r, snd (lock_attempt lp w))"
  by (cases "lock_attempt lp w") (simp add: acquire_loop.simps [of i])

lemma loop_continue_fst:
  "i < maxRetries \<Longrightarrow> fst (lock_attempt lp w) = Continue \<Longrightarrow>
     acquire_loop i lp w = acquire_loop (i + 1) lp (snd (lock_attempt lp w))"
  by (cases "lock_attempt lp w") (simp add: acquire_loop.simps [of i])

lemma turn_created:
  "fault w = None \<Longrightarrow> fs w lp = None \<Longrightarrow>
     fst (lock_attempt lp w) = Return (Inr \<lparr>lockFile = Some lp, lockPath = lp\<rparr>)
     \<and> fs (snd (lock_attempt lp w)) lp \<noteq> None
     \<and> events_since w (snd (lock_attempt lp w)) \<noteq> []
     \<and> hd (events_since w (snd (lock_attempt lp w))) = (OpenExcl lp, None)
     \<and> length (filter is_OpenExcl (events_since w (snd (lock_attempt lp w)))) = 1"
  by (auto simp: lock_attempt_def os_defs events_since_def split: option.splits)

lemma turn_stale:
  "faults w (length (trace w)) = None \<Longrightarrow> faults w (Suc (length (trace w))) = None \<Longrightarrow>
   faults w (Suc (Suc (length (trace w)))) = None \<Longrightarrow>
   fs w lp = Some fl \<Longrightarrow> 30 * Second < clock w - modTime fl \<Longrightarrow>
     fst (lock_attempt lp w) = Continue
     \<and> fs (snd (lock_attempt lp w)) = (fs w)(lp := None)
     \<and> clock (snd (lock_attempt lp w)) = clock w
     \<and> faults (snd (lock_attempt lp w)) = faults w
     \<and> pid (snd (lock_attempt lp w)) = pid w
     \<and> trace (snd (lock_attempt lp w))
         = trace w @ [(OpenExcl lp, Some ErrExist), (Stat lp, None), (Remove lp, None)]"
  by (simp add: lock_attempt_def os_defs)

lemma turn_gone:
  "faults w (length (trace w)) = None \<Longrightarrow> faults w (Suc (length (trace w))) = None \<Longrightarrow>
   faults w (Suc (Suc (length (trace w)))) = Some ErrNotExist \<Longrightarrow>
   fs w lp = Some fl \<Longrightarrow> 30 * Second < clock w - modTime fl \<Longrightarrow>
     fst (lock_attempt lp w) = Continue
     \<and> fs (snd (lock_attempt lp w)) = fs w
     \<and> clock (snd (lock_attempt lp w)) = clock w
     \<and> faults (snd (lock_attempt lp w)) = faults w
     \<and> pid (snd (lock_attempt lp w)) = pid w
     \<and> trace (snd (lock_attempt lp w))
         = trace w @ [(OpenExcl lp, Some ErrExist), (Stat lp, None), (Remove lp, Some ErrNotExist)]"
  by (simp add: lock_attempt_def os_defs)

lemma turn_fresh:
  "faults w (length (trace w)) = None \<Longrightarrow> faults w (Suc (length (trace w))) = None \<Longrightarrow>
   fs w lp = Some fl \<Longrightarrow> clock w - modTime fl \<le> 30 * Second \<Longrightarrow>
     fst (lock_attempt lp w) = Continue
     \<and> fs (snd (lock_attempt lp w)) = fs w
     \<and> clock (snd (lock_attempt lp w)) = clock w + retryDelay
     \<and> faults (snd (lock_attempt lp w)) = faults w
     \<and> pid (snd (lock_attempt lp w)) = pid w
     \<and> trace (snd (lock_attempt lp w))
         = trace w @ [(OpenExcl lp, Some ErrExist), (Stat lp, None), (Sleep retryDelay, None)]"
  by (simp add: lock_attempt_def os_defs)

lemma turn_created_clean:
  "faults w (length (trace w)) = None \<Longrightarrow> faults w (Suc (length (trace w))) = None \<Longrightarrow>
   fs w lp = None \<Longrightarrow>
     fst (lock_attempt lp w) = Return (Inr \<lparr>lockFile = Some lp, lockPath = lp\<rparr>)
     \<and> fs (snd (lock_attempt lp w)) = (fs w)(lp \<mapsto> \<lparr>data = Doc (JInt (pid w)), modTime = clock w\<rparr>)
     \<and> trace (snd (lock_attempt lp w)) = trace w @ [(OpenExcl lp, None), (WritePid lp, None)]"
  by (simp add: lock_attempt_def os_defs)

lemma turn_open_error:
  "fault w = Some e \<Longrightarrow> e \<noteq> ErrExist \<Longrightarrow>
     fst (lock_attempt lp w) = Return (Inl (ErrAcquireFileLock e))
     \<and> fs (snd (lock_attempt lp w)) = fs w
     \<and> trace (snd (lock_attempt lp w)) = trace w @ [(OpenExcl lp, Some e)]"
  by (simp add: lock_attempt_def os_defs)

lemma turn_remove_error:
  "fs w lp = Some fl \<Longrightarrow> 30 * Second < clock w - modTime fl \<Longrightarrow>
   faults w (length (trace w)) = None \<Longrightarrow> faults w (Suc (length (trace w))) = None \<Longrightarrow>
   faults w (Suc (Suc (length (trace w)))) = Some e \<Longrightarrow> e \<noteq> ErrNotExist \<Longrightarrow>
     fst (lock_attempt lp w) = Return (Inl (ErrRemoveStaleLock lp e))
     \<and> fs (snd (lock_attempt lp w)) = fs w
     \<and> trace (snd (lock_attempt lp w))
         = trace w @ [(OpenExcl lp, Some ErrExist), (Stat lp, None), (Remove lp, Some e)]"
  by (simp add: lock_attempt_def os_defs)

lemma first_turn_return:
  "fst (lock_attempt (f @ ''.lock'') w) = Return r \<Longrightarrow>
     acquireFileLock f w = (r, snd (lock_attempt (f @ ''.lock'') w))"
  using loop_return_fst [of 0 "f @ ''.lock''" w r]
  by (simp add: acquireFileLock_def maxRetries_def)

lemma first_turn_continue:
  "fst (lock_attempt (f @ ''.lock'') w) = Continue \<Longrightarrow>
     acquireFileLock f w = acquire_loop 1 (f @ ''.lock'') (snd (lock_attempt (f @ ''.lock'') w))"
  using loop_continue_fst [of 0 "f @ ''.lock''" w]
  by (simp add: acquireFileLock_def maxRetries_def)

lemma acquire_absent:
  assumes "fault w = None" and "fs w (f @ ''.lock'') = None"
  shows "fst (acquireFileLock f w)
           = Inr \<lparr>lockFile = Some (f @ ''.lock''), lockPath = f @ ''.lock''\<rparr>
     \<and> fs (snd (acquireFileLock f w)) (f @ ''.lock'') \<noteq> None
     \<and> length (filter is_OpenExcl (events_since w (snd (acquireFileLock f w)))) = 1"
  using turn_created [OF assms] first_turn_return [of f w] by simp

lemma acquire_open_error:
  assumes "fault w = Some e" and "e \<noteq> ErrExist"
  shows "fst (acquireFileLock f w) = Inl (ErrAcquireFileLock e)
     \<and> events_since w (snd (acquireFileLock f w)) = [(OpenExcl (f @ ''.lock''), Some e)]"
  using turn_open_error [OF assms, of "f @ ''.lock''"] first_turn_return [of f w]
  by (simp add: events_since_def)

lemma acquire_remove_refused:
  assumes "fs w (f @ ''.lock'') = Some fl" and "30 * Second < clock w - modTime fl"
    and "faults w (length (trace w)) = None" and "faults w (Suc (length (trace w))) = None"
    and "faults w (Suc (Suc (length (trace w)))) = Some e" and "e \<noteq> ErrNotExist"
  shows "fst (acquireFileLock f w) = Inl (ErrRemoveStaleLock (f @ ''.lock'') e)
     \<and> events_since w (snd (acquireFileLock f w))
         = [(OpenExcl (f @ ''.lock''), Some ErrExist), (Stat (f @ ''.lock''), None),
            (Remove (f @ ''.lock''), Some e)]
     \<and> fs (snd (acquireFileLock f w)) = fs w"
  using turn_remove_error [OF assms] first_turn_return [of f w]
  by (simp add: events_since_def)

lemma acquire_stale:
  assumes nf: "\<forall>n. faults w n = None"
    and fl: "fs w (f @ ''.lock'') = Some fl" and old: "30 * Second < clock w - modTime fl"
  shows "fst (acquireFileLock f w)
           = Inr \<lparr>lockFile = Some (f @ ''.lock''), lockPath = f @ ''.lock''\<rparr>
     \<and> events_since w (snd (acquireFileLock f w))
         = [(OpenExcl (f @ ''.lock''), Some ErrExist), (Stat (f @ ''.lock''), None),
            (Remove (f @ ''.lock''), None), (OpenExcl (f @ ''.lock''), None),
            (WritePid (f @ ''.lock''), None)]
     \<and> fs (snd (acquireFileLock f w)) (f @ ''.lock'')
         = Some \<lparr>data = Doc (JInt (pid w)), modTime = clock w\<rparr>"
proof -
  let ?lp = "f @ ''.lock''"
  let ?w1 = "snd (lock_attempt ?lp w)"
  have t1: "fst (lock_attempt ?lp w) = Continue" "fs ?w1 = (fs w)(?lp := None)"
    "clock ?w1 = clock w" "faults ?w1 = faults w" "pid ?w1 = pid w"
    "trace ?w1 = trace w @ [(OpenExcl ?lp, Some ErrExist), (Stat ?lp, None), (Remove ?lp, None)]"
    using turn_stale [OF _ _ _ fl old] nf by simp_all
  have t2: "fst (lock_attempt ?lp ?w1) = Return (Inr \<lparr>lockFile = Some ?lp, lockPath = ?lp\<rparr>)"
    "fs (snd (lock_attempt ?lp ?w1)) = (fs ?w1)(?lp \<mapsto> \<lparr>data = Doc (JInt (pid ?w1)), modTime = clock ?w1\<rparr>)"
    "trace (snd (lock_attempt ?lp ?w1)) = trace ?w1 @ [(OpenExcl ?lp, None), (WritePid ?lp, None)]"
    using turn_created_clean [of ?w1 ?lp] nf t1(2,4) by simp_all
  have "acquireFileLock f w = acquire_loop 1 ?lp ?w1" using first_turn_continue [OF t1(1)] .
  also have "\<dots> = (Inr \<lparr>lockFile = Some ?lp, lockPath = ?lp\<rparr>, snd (lock_attempt ?lp ?w1))"
    using loop_return_fst [of 1 ?lp ?w1] t2(1) by (simp add: maxRetries_def)
  finally show ?thesis using t1 t2 by (simp add: events_since_def)
qed

lemma acquire_gone:
  assumes f0: "\<forall>n. n \<noteq> Suc (Suc (length (trace w))) \<longrightarrow> faults w n = None"
    and f2: "faults w (Suc (Suc (length (trace w)))) = Some ErrNotExist"
    and fl: "fs w (f @ ''.lock'') = Some fl" and old: "30 * Second < clock w - modTime fl"
  shows "fst (acquireFileLock f w)
           = Inr \<lparr>lockFile = Some (f @ ''.lock''), lockPath = f @ ''.lock''\<rparr>
     \<and> take 4 (events_since w (snd (acquireFileLock f w)))
         = [(OpenExcl (f @ ''.lock''), Some ErrExist), (Stat (f @ ''.lock''), None),
            (Remove (f @ ''.lock''), Some ErrNotExist), (OpenExcl (f @ ''.lock''), Some ErrExist)]
     \<and> filter is_Sleep (events_since w (snd (acquireFileLock f w))) = []"
proof -
  let ?lp = "f @ ''.lock''"
  let ?w1 = "snd (lock_attempt ?lp w)"
  let ?w2 = "snd (lock_attempt ?lp ?w1)"
  let ?w3 = "snd (lock_attempt ?lp ?w2)"
  have t1: "fst (lock_attempt ?lp w) = Continue" "fs ?w1 = fs w"
    "clock ?w1 = clock w" "faults ?w1 = faults w" "pid ?w1 = pid w"
    "trace ?w1 = trace w @ [(OpenExcl ?lp, Some ErrExist), (Stat ?lp, None),
                            (Remove ?lp, Some ErrNotExist)]"
    using turn_gone [OF _ _ f2 fl old] f0 by simp_all
  have t2: "fst (lock_attempt ?lp ?w1) = Continue" "fs ?w2 = (fs ?w1)(?lp := None)"
    "clock ?w2 = clock ?w1" "faults ?w2 = faults ?w1" "pid ?w2 = pid ?w1"
    "trace ?w2 = trace ?w1 @ [(OpenExcl ?lp, Some ErrExist), (Stat ?lp, None), (Remove ?lp, None)]"
    using turn_stale [of ?w1 ?lp fl] f0 fl old t1 by simp_all
  have t3: "fst (lock_attempt ?lp ?w2) = Return (Inr \<lparr>lockFile = Some ?lp, lockPath = ?lp\<rparr>)"
    "trace ?w3 = trace ?w2 @ [(OpenExcl ?lp, None), (WritePid ?lp, None)]"
    using turn_created_clean [of ?w2 ?lp] f0 t1 t2 by simp_all
  have "acquireFileLock f w = acquire_loop 1 ?lp ?w1" using first_turn_continue [OF t1(1)] .
  also have "\<dots> = acquire_loop (1 + 1) ?lp ?w2"
    using loop_continue_fst [of 1 ?lp ?w1] t2(1) by (simp add: maxRetries_def)
  also have "\<dots> = (Inr \<lparr>lockFile = Some ?lp, lockPath = ?lp\<rparr>, ?w3)"
    using loop_return_fst [of "1 + 1" ?lp ?w2] t3(1) by (simp add: maxRetries_def)
  finally show ?thesis using t1 t2 t3 by (simp add: events_since_def)
qed

lemma loop_fresh:
  "\<forall>n. faults w n = None \<Longrightarrow> fs w lp = Some fl \<Longrightarrow>
   clock w - modTime fl + (int maxRetries - int i - 1) * retryDelay \<le> 30 * Second \<Longrightarrow>
     \<exists>evs. trace (snd (acquire_loop i lp w)) = trace w @ evs
       \<and> filter is_Sleep evs = replicate (maxRetries - i) (Sleep retryDelay, None)
       \<and> fst (acquire_loop i lp w) = Inl (ErrLockTimeout (5 * Second))
       \<and> fs (snd (acquire_loop i lp w)) = fs w"
proof (induction i lp w rule: acquire_loop.induct)
  case (1 i lp w)
  show ?case
  proof (cases "i < maxRetries")
    case False
    then show ?thesis
      by (simp add: acquire_loop.simps [of i] maxRetries_def retryDelay_def Millisecond_def
            Second_def)
  next
    case True
    let ?w1 = "snd (lock_attempt lp w)"
    have "0 \<le> (int maxRetries - int i - 1) * retryDelay"
      using True by (simp add: retryDelay_def Millisecond_def)
    then have young: "clock w - modTime fl \<le> 30 * Second" using "1.prems"(3) by linarith
    have t: "fst (lock_attempt lp w) = Continue" "fs ?w1 = fs w"
      "clock ?w1 = clock w + retryDelay" "faults ?w1 = faults w"
      "trace ?w1 = trace w @ [(OpenExcl lp, Some ErrExist), (Stat lp, None),
                              (Sleep retryDelay, None)]"
      using turn_fresh [OF _ _ "1.prems"(2) young] "1.prems"(1) by simp_all
    have a: "lock_attempt lp w = (Continue, ?w1)" using t(1) by (simp add: prod_eq_iff)
    have next_young:
      "clock ?w1 - modTime fl + (int maxRetries - int (i + 1) - 1) * retryDelay \<le> 30 * Second"
      using "1.prems"(3) t(3) by (simp add: algebra_simps)
    from "1.IH" [OF True a [symmetric] refl _ _ next_young] "1.prems"(1,2) t(2,4)
    obtain evs where
      e: "trace (snd (acquire_loop (i + 1) lp ?w1)) = trace ?w1 @ evs"
         "filter is_Sleep evs = replicate (maxRetries - (i + 1)) (Sleep retryDelay, None)"
         "fst (acquire_loop (i + 1) lp ?w1) = Inl (ErrLockTimeout (5 * Second))"
         "fs (snd (acquire_loop (i + 1) lp ?w1)) = fs ?w1"
      by auto
    have r: "acquire_loop i lp w = acquire_loop (i + 1) lp ?w1"
      using loop_continue_fst [OF True t(1)] .
    have n: "maxRetries - i = Suc (maxRetries - (i + 1))" using True by simp
    have "trace (snd (acquire_loop i lp w))
            = trace w @ ([(OpenExcl lp, Some ErrExist), (Stat lp, None), (Sleep retryDelay, None)]
                         @ evs)"
      using e(1) t(5) r by simp
    moreover have "filter is_Sleep
        ([(OpenExcl lp, Some ErrExist), (Stat lp, None), (Sleep retryDelay, None)] @ evs)
          = replicate (maxRetries - i) (Sleep retryDelay, None)"
      using e(2) n by simp
    ultimately show ?thesis using e(3,4) t(2) r by (metis (no_types, lifting))
  qed
qed

lemma acquire_fresh:
  assumes "\<forall>n. faults w n = None" and "fs w (f @ ''.lock'') = Some fl"
    and "clock w - modTime fl + 49 * (100 * Millisecond) \<le> 30 * Second"
  shows "fst (acquireFileLock f w) = Inl (ErrLockTimeout (5 * Second))
     \<and> filter is_Sleep (events_since w (snd (acquireFileLock f w)))
         = replicate 50 (Sleep (100 * Millisecond), None)
     \<and> fs (snd (acquireFileLock f w)) = fs w"
proof -
  have "clock w - modTime fl + (int maxRetries - int 0 - 1) * retryDelay \<le> 30 * Second"
    using assms(3) by (simp add: maxRetries_def retryDelay_def)
  from loop_fresh [OF assms(1,2) this] show ?thesis
    by (auto simp: acquireFileLock_def events_since_def maxRetries_def retryDelay_def)
qed

lemma turn_stat_error:
  "faults w (length (trace w)) = None \<Longrightarrow> fs w lp = Some fl \<Longrightarrow>
   faults w (Suc (length (trace w))) = Some e \<Longrightarrow>
     fst (lock_attempt lp w) = Continue
     \<and> fs (snd (lock_attempt lp w)) = fs w
     \<and> filter is_Sleep (events_since w (snd (lock_attempt lp w)))
         = [(Sleep (100 * Millisecond), None)]"
  by (simp add: lock_attempt_def os_defs events_since_def retryDelay_def)

lemma turn_gone_quiet:
  "fs w lp = Some fl \<Longrightarrow> 30 * Second < clock w - modTime fl \<Longrightarrow>
   faults w (length (trace w)) = None \<Longrightarrow> faults w (Suc (length (trace w))) = None \<Longrightarrow>
   faults w (Suc (Suc (length (trace w)))) = Some ErrNotExist \<Longrightarrow>
     fst (lock_attempt lp w) = Continue
     \<and> filter is_Sleep (events_since w (snd (lock_attempt lp w))) = []"
  using turn_gone [of w lp fl] by (simp add: events_since_def)

lemma turn_cases:
  "(\<exists>wr. events_since v (snd (lock_attempt lp v)) = [(OpenExcl lp, None), (WritePid lp, wr)]
        \<and> fst (lock_attempt lp v) = Return (Inr \<lparr>lockFile = Some lp, lockPath = lp\<rparr>))
   \<or> (\<exists>e. e \<noteq> ErrExist
        \<and> events_since v (snd (lock_attempt lp v)) = [(OpenExcl lp, Some e)]
        \<and> fst (lock_attempt lp v) = Return (Inl (ErrAcquireFileLock e)))
   \<or> (\<exists>e. events_since v (snd (lock_attempt lp v))
            = [(OpenExcl lp, Some ErrExist), (Stat lp, Some e), (Sleep (100 * Millisecond), None)]
        \<and> fst (lock_attempt lp v) = Continue)
   \<or> (\<exists>fl. fs v lp = Some fl \<and> clock v - modTime fl \<le> 30 * Second
        \<and> events_since v (snd (lock_attempt lp v))
            = [(OpenExcl lp, Some ErrExist), (Stat lp, None), (Sleep (100 * Millisecond), None)]
        \<and> fst (lock_attempt lp v) = Continue)
   \<or> (\<exists>fl. fs v lp = Some fl \<and> 30 * Second < clock v - modTime fl
        \<and> events_since v (snd (lock_attempt lp v))
            = [(OpenExcl lp, Some ErrExist), (Stat lp, None), (Remove lp, None)]
        \<and> fst (lock_attempt lp v) = Continue)
   \<or> (\<exists>fl. fs v lp = Some fl \<and> 30 * Second < clock v - modTime fl
        \<and> events_since v (snd (lock_attempt lp v))
            = [(OpenExcl lp, Some ErrExist), (Stat lp, None), (Remove lp, Some ErrNotExist)]
        \<and> fst (lock_attempt lp v) = Continue)
   \<or> (\<exists>fl e. fs v lp = Some fl \<and> 30 * Second < clock v - modTime fl \<and> e \<noteq> ErrNotExist
        \<and> events_since v (snd (lock_attempt lp v))
            = [(OpenExcl lp, Some ErrExist), (Stat lp, None), (Remove lp, Some e)]
        \<and> fst (lock_attempt lp v) = Return (Inl (ErrRemoveStaleLock lp e)))"
  by (auto simp: lock_attempt_def os_defs events_since_def retryDelay_def
      split: option.splits sum.splits)

text \<open>
  C6, as the code has it. \<open>acquireFileLock\<close> opens the lock file at most 50 times, and it
  returns the timeout error, which names 5 seconds, exactly when it made 50 attempts that
  all found the file in place.

  The loop: the function is the loop from turn 0; before turn 50, a turn that returns
  ends the function with what it returns, and after a turn that goes on the function
  does what the loop does from the next turn in the world the turn left; at turn 50 the
  loop ends with the timeout error.

  One turn makes one of seven series of calls, each with its outcome: the file is
  created and the lock returned; the creation fails for another reason than the file
  being there, and that error is returned; the age of the file cannot be read, or the
  file is at most 30 seconds old, and the turn pauses 100 ms and goes on; the file is
  older and is removed, or found gone, and the turn goes on without a pause; the removal
  fails for another reason, and that error is returned. By the state of the world: a
  turn takes the lock when the file is absent. When the file is there and more
  than 30 seconds old it removes the file and goes on without a pause, also when the
  removal finds the file gone. When the file is there and not older, or its age
  cannot be read, it pauses 100 ms and goes on. Two turns end the function with an
  error at once: an attempt to create the file that fails for another reason than the
  file being there, and a removal of the stale file that fails for another reason than
  the file being gone.

  The whole call: with no lock file it takes the lock in one attempt; a stale lock file
  is removed and the lock taken in the second attempt, with no pause; when the removal
  reports the file gone, the next attempt follows at once and the lock is taken with no
  pause; a lock file that stays fresh through all the turns gives 50 pauses of 100 ms
  and the timeout error, and the files are as before; the two errors above are returned
  after one attempt.
\<close>

theorem acquireFileLock_bounded:
  "length (filter is_OpenExcl (events_since w (snd (acquireFileLock f w)))) \<le> 50
   \<and> ((fst (acquireFileLock f w) = Inl (ErrLockTimeout (5 * Second))) =
        (length (filter is_OpenExcl (events_since w (snd (acquireFileLock f w)))) = 50 \<and>
         (\<forall>ev\<in>set (events_since w (snd (acquireFileLock f w))). retry_event ev)))
   \<and> (\<forall>d. fst (acquireFileLock f w) = Inl (ErrLockTimeout d) \<longrightarrow> d = 5 * Second)
   \<and> acquireFileLock f w = acquire_loop 0 (f @ ''.lock'') w
   \<and> (i < 50 \<and> fst (lock_attempt lp v) = Return r \<longrightarrow>
        acquire_loop i lp v = (r, snd (lock_attempt lp v)))
   \<and> (i < 50 \<and> fst (lock_attempt lp v) = Continue \<longrightarrow>
        acquire_loop i lp v = acquire_loop (i + 1) lp (snd (lock_attempt lp v)))
   \<and> acquire_loop 50 lp v = (Inl (ErrLockTimeout (5 * Second)), v)
   \<and> (fault v = None \<and> fs v lp = None \<longrightarrow>
        fst (lock_attempt lp v) = Return (Inr \<lparr>lockFile = Some lp, lockPath = lp\<rparr>)
        \<and> fs (snd (lock_attempt lp v)) lp \<noteq> None)
   \<and> ((\<forall>n. faults v n = None) \<and> fs v lp = Some fl \<and> 30 * Second < clock v - modTime fl \<longrightarrow>
        fst (lock_attempt lp v) = Continue
        \<and> fs (snd (lock_attempt lp v)) lp = None
        \<and> filter is_Sleep (events_since v (snd (lock_attempt lp v))) = [])
   \<and> (fs v lp = Some fl \<and> 30 * Second < clock v - modTime fl \<and>
       faults v (length (trace v)) = None \<and> faults v (Suc (length (trace v))) = None \<and>
       faults v (Suc (Suc (length (trace v)))) = Some ErrNotExist \<longrightarrow>
        fst (lock_attempt lp v) = Continue
        \<and> filter is_Sleep (events_since v (snd (lock_attempt lp v))) = [])
   \<and> ((\<forall>n. faults v n = None) \<and> fs v lp = Some fl \<and> clock v - modTime fl \<le> 30 * Second \<longrightarrow>
        fst (lock_attempt lp v) = Continue
        \<and> fs (snd (lock_attempt lp v)) = fs v
        \<and> filter is_Sleep (events_since v (snd (lock_attempt lp v)))
            = [(Sleep (100 * Millisecond), None)])
   \<and> (faults v (length (trace v)) = None \<and> fs v lp = Some fl \<and>
       faults v (Suc (length (trace v))) = Some e \<longrightarrow>
        fst (lock_attempt lp v) = Continue
        \<and> fs (snd (lock_attempt lp v)) = fs v
        \<and> filter is_Sleep (events_since v (snd (lock_attempt lp v)))
            = [(Sleep (100 * Millisecond), None)])
   \<and> (fault v = Some e \<and> e \<noteq> ErrExist \<longrightarrow>
        fst (lock_attempt lp v) = Return (Inl (ErrAcquireFileLock e)))
   \<and> (fs v lp = Some fl \<and> 30 * Second < clock v - modTime fl \<and>
       faults v (length (trace v)) = None \<and> faults v (Suc (length (trace v))) = None \<and>
       faults v (Suc (Suc (length (trace v)))) = Some e \<and> e \<noteq> ErrNotExist \<longrightarrow>
        fst (lock_attempt lp v) = Return (Inl (ErrRemoveStaleLock lp e))
        \<and> fs (snd (lock_attempt lp v)) lp = fs v lp)
   \<and> (fault u = None \<and> fs u (g @ ''.lock'') = None \<longrightarrow>
        fst (acquireFileLock g u)
          = Inr \<lparr>lockFile = Some (g @ ''.lock''), lockPath = g @ ''.lock''\<rparr>
        \<and> fs (snd (acquireFileLock g u)) (g @ ''.lock'') \<noteq> None
        \<and> length (filter is_OpenExcl (events_since u (snd (acquireFileLock g u)))) = 1)
   \<and> ((\<forall>n. faults u n = None) \<and> fs u (g @ ''.lock'') = Some fl \<and>
       30 * Second < clock u - modTime fl \<longrightarrow>
        fst (acquireFileLock g u)
          = Inr \<lparr>lockFile = Some (g @ ''.lock''), lockPath = g @ ''.lock''\<rparr>
        \<and> events_since u (snd (acquireFileLock g u))
            = [(OpenExcl (g @ ''.lock''), Some ErrExist), (Stat (g @ ''.lock''), None),
               (Remove (g @ ''.lock''), None), (OpenExcl (g @ ''.lock''), None),
               (WritePid (g @ ''.lock''), None)]
        \<and> fs (snd (acquireFileLock g u)) (g @ ''.lock'')
            = Some \<lparr>data = Doc (JInt (pid u)), modTime = clock u\<rparr>)
   \<and> ((\<forall>n. n \<noteq> Suc (Suc (length (trace u))) \<longrightarrow> faults u n = None) \<and>
       faults u (Suc (Suc (length (trace u)))) = Some ErrNotExist \<and>
       fs u (g @ ''.lock'') = Some fl \<and> 30 * Second < clock u - modTime fl \<longrightarrow>
        fst (acquireFileLock g u)
          = Inr \<lparr>lockFile = Some (g @ ''.lock''), lockPath = g @ ''.lock''\<rparr>
        \<and> take 4 (events_since u (snd (acquireFileLock g u)))
            = [(OpenExcl (g @ ''.lock''), Some ErrExist), (Stat (g @ ''.lock''), None),
               (Remove (g @ ''.lock''), Some ErrNotExist),
               (OpenExcl (g @ ''.lock''), Some ErrExist)]
        \<and> filter is_Sleep (events_since u (snd (acquireFileLock g u))) = [])
   \<and> ((\<forall>n. faults u n = None) \<and> fs u (g @ ''.lock'') = Some fl \<and>
       clock u - modTime fl + 49 * (100 * Millisecond) \<le> 30 * Second \<longrightarrow>
        fst (acquireFileLock g u) = Inl (ErrLockTimeout (5 * Second))
        \<and> filter is_Sleep (events_since u (snd (acquireFileLock g u)))
            = replicate 50 (Sleep (100 * Millisecond), None)
        \<and> fs (snd (acquireFileLock g u)) = fs u)
   \<and> (fault u = Some e \<and> e \<noteq> ErrExist \<longrightarrow>
        fst (acquireFileLock g u) = Inl (ErrAcquireFileLock e)
        \<and> events_since u (snd (acquireFileLock g u)) = [(OpenExcl (g @ ''.lock''), Some e)])
   \<and> (fs u (g @ ''.lock'') = Some fl \<and> 30 * Second < clock u - modTime fl \<and>
       faults u (length (trace u)) = None \<and> faults u (Suc (length (trace u))) = None \<and>
       faults u (Suc (Suc (length (trace u)))) = Some e \<and> e \<noteq> ErrNotExist \<longrightarrow>
        fst (acquireFileLock g u) = Inl (ErrRemoveStaleLock (g @ ''.lock'') e)
        \<and> events_since u (snd (acquireFileLock g u))
            = [(OpenExcl (g @ ''.lock''), Some ErrExist), (Stat (g @ ''.lock''), None),
               (Remove (g @ ''.lock''), Some e)]
        \<and> fs (snd (acquireFileLock g u)) = fs u)
   \<and> ((\<exists>wr. events_since v (snd (lock_attempt lp v)) = [(OpenExcl lp, None), (WritePid lp, wr)]
            \<and> fst (lock_attempt lp v) = Return (Inr \<lparr>lockFile = Some lp, lockPath = lp\<rparr>))
       \<or> (\<exists>e. e \<noteq> ErrExist
            \<and> events_since v (snd (lock_attempt lp v)) = [(OpenExcl lp, Some e)]
            \<and> fst (lock_attempt lp v) = Return (Inl (ErrAcquireFileLock e)))
       \<or> (\<exists>e. events_since v (snd (lock_attempt lp v))
                = [(OpenExcl lp, Some ErrExist), (Stat lp, Some e), (Sleep (100 * Millisecond), None)]
            \<and> fst (lock_attempt lp v) = Continue)
       \<or> (\<exists>fl. fs v lp = Some fl \<and> clock v - modTime fl \<le> 30 * Second
            \<and> events_since v (snd (lock_attempt lp v))
                = [(OpenExcl lp, Some ErrExist), (Stat lp, None), (Sleep (100 * Millisecond), None)]
            \<and> fst (lock_attempt lp v) = Continue)
       \<or> (\<exists>fl. fs v lp = Some fl \<and> 30 * Second < clock v - modTime fl
            \<and> events_since v (snd (lock_attempt lp v))
                = [(OpenExcl lp, Some ErrExist), (Stat lp, None), (Remove lp, None)]
            \<and> fst (lock_attempt lp v) = Continue)
       \<or> (\<exists>fl. fs v lp = Some fl \<and> 30 * Second < clock v - modTime fl
            \<and> events_since v (snd (lock_attempt lp v))
                = [(OpenExcl lp, Some ErrExist), (Stat lp, None), (Remove lp, Some ErrNotExist)]
            \<and> fst (lock_attempt lp v) = Continue)
       \<or> (\<exists>fl e. fs v lp = Some fl \<and> 30 * Second < clock v - modTime fl \<and> e \<noteq> ErrNotExist
            \<and> events_since v (snd (lock_attempt lp v))
                = [(OpenExcl lp, Some ErrExist), (Stat lp, None), (Remove lp, Some e)]
            \<and> fst (lock_attempt lp v) = Return (Inl (ErrRemoveStaleLock lp e))))"
proof -
  obtain r' w' where a: "acquire_loop 0 (f @ ''.lock'') w = (r', w')" by fastforce
  from loop_events [OF a] obtain evs where
    evs: "trace w' = trace w @ evs" "length (filter is_OpenExcl evs) \<le> maxRetries - 0"
      "(r' = Inl (ErrLockTimeout (int maxRetries * retryDelay))) =
          (length (filter is_OpenExcl evs) = maxRetries - 0 \<and> (\<forall>ev\<in>set evs. retry_event ev))"
      "\<forall>d. r' = Inl (ErrLockTimeout d) \<longrightarrow> d = int maxRetries * retryDelay"
    by blast
  have e: "events_since w (snd (acquireFileLock f w)) = evs"
    using a evs(1) by (simp add: acquireFileLock_def events_since_append)
  have r: "fst (acquireFileLock f w) = r'" using a by (simp add: acquireFileLock_def)
  have d: "int maxRetries * retryDelay = 5 * Second"
    by (simp add: maxRetries_def retryDelay_def Millisecond_def Second_def)
  have bound: "length (filter is_OpenExcl (events_since w (snd (acquireFileLock f w)))) \<le> 50"
    using evs(2) unfolding e by (simp add: maxRetries_def)
  have timeout: "(fst (acquireFileLock f w) = Inl (ErrLockTimeout (5 * Second))) =
        (length (filter is_OpenExcl (events_since w (snd (acquireFileLock f w)))) = 50 \<and>
         (\<forall>ev\<in>set (events_since w (snd (acquireFileLock f w))). retry_event ev))"
    using evs(3) unfolding e r d by (simp add: maxRetries_def)
  have five: "\<forall>d. fst (acquireFileLock f w) = Inl (ErrLockTimeout d) \<longrightarrow> d = 5 * Second"
    using evs(4) unfolding r d .
  have start: "acquireFileLock f w = acquire_loop 0 (f @ ''.lock'') w"
    by (simp add: acquireFileLock_def)
  have returns: "i < 50 \<and> fst (lock_attempt lp v) = Return r \<longrightarrow>
        acquire_loop i lp v = (r, snd (lock_attempt lp v))"
    using loop_return_fst [of i lp v r] by (simp add: maxRetries_def)
  have goes_on: "i < 50 \<and> fst (lock_attempt lp v) = Continue \<longrightarrow>
        acquire_loop i lp v = acquire_loop (i + 1) lp (snd (lock_attempt lp v))"
    using loop_continue_fst [of i lp v] by (simp add: maxRetries_def)
  have gives_up: "acquire_loop 50 lp v = (Inl (ErrLockTimeout (5 * Second)), v)"
    using loop_exhausted [of lp v] by (simp add: maxRetries_def)
  have created: "fault v = None \<and> fs v lp = None \<longrightarrow>
        fst (lock_attempt lp v) = Return (Inr \<lparr>lockFile = Some lp, lockPath = lp\<rparr>)
        \<and> fs (snd (lock_attempt lp v)) lp \<noteq> None"
    using attempt_created [of v lp] by blast
  have stale: "(\<forall>n. faults v n = None) \<and> fs v lp = Some fl \<and> 30 * Second < clock v - modTime fl \<longrightarrow>
        fst (lock_attempt lp v) = Continue
        \<and> fs (snd (lock_attempt lp v)) lp = None
        \<and> filter is_Sleep (events_since v (snd (lock_attempt lp v))) = []"
    using attempt_stale [of v lp fl] by blast
  have gone: "fs v lp = Some fl \<and> 30 * Second < clock v - modTime fl \<and>
       faults v (length (trace v)) = None \<and> faults v (Suc (length (trace v))) = None \<and>
       faults v (Suc (Suc (length (trace v)))) = Some ErrNotExist \<longrightarrow>
        fst (lock_attempt lp v) = Continue
        \<and> filter is_Sleep (events_since v (snd (lock_attempt lp v))) = []"
    using turn_gone_quiet [of v lp fl] by blast
  have fresh: "(\<forall>n. faults v n = None) \<and> fs v lp = Some fl \<and> clock v - modTime fl \<le> 30 * Second \<longrightarrow>
        fst (lock_attempt lp v) = Continue
        \<and> fs (snd (lock_attempt lp v)) = fs v
        \<and> filter is_Sleep (events_since v (snd (lock_attempt lp v)))
            = [(Sleep (100 * Millisecond), None)]"
    using attempt_fresh [of v lp fl] by blast
  have stat_error: "faults v (length (trace v)) = None \<and> fs v lp = Some fl \<and>
       faults v (Suc (length (trace v))) = Some e \<longrightarrow>
        fst (lock_attempt lp v) = Continue
        \<and> fs (snd (lock_attempt lp v)) = fs v
        \<and> filter is_Sleep (events_since v (snd (lock_attempt lp v)))
            = [(Sleep (100 * Millisecond), None)]"
    using turn_stat_error [of v lp fl e] by blast
  have open_error: "fault v = Some e \<and> e \<noteq> ErrExist \<longrightarrow>
        fst (lock_attempt lp v) = Return (Inl (ErrAcquireFileLock e))"
    using attempt_open_error [of v e lp] by blast
  have remove_error: "fs v lp = Some fl \<and> 30 * Second < clock v - modTime fl \<and>
       faults v (length (trace v)) = None \<and> faults v (Suc (length (trace v))) = None \<and>
       faults v (Suc (Suc (length (trace v)))) = Some e \<and> e \<noteq> ErrNotExist \<longrightarrow>
        fst (lock_attempt lp v) = Return (Inl (ErrRemoveStaleLock lp e))
        \<and> fs (snd (lock_attempt lp v)) lp = fs v lp"
    using attempt_remove_error [of v lp fl e] by blast
  have call_absent: "fault u = None \<and> fs u (g @ ''.lock'') = None \<longrightarrow>
        fst (acquireFileLock g u)
          = Inr \<lparr>lockFile = Some (g @ ''.lock''), lockPath = g @ ''.lock''\<rparr>
        \<and> fs (snd (acquireFileLock g u)) (g @ ''.lock'') \<noteq> None
        \<and> length (filter is_OpenExcl (events_since u (snd (acquireFileLock g u)))) = 1"
    using acquire_absent [of u g] by blast
  have call_stale: "(\<forall>n. faults u n = None) \<and> fs u (g @ ''.lock'') = Some fl \<and>
       30 * Second < clock u - modTime fl \<longrightarrow>
        fst (acquireFileLock g u)
          = Inr \<lparr>lockFile = Some (g @ ''.lock''), lockPath = g @ ''.lock''\<rparr>
        \<and> events_since u (snd (acquireFileLock g u))
            = [(OpenExcl (g @ ''.lock''), Some ErrExist), (Stat (g @ ''.lock''), None),
               (Remove (g @ ''.lock''), None), (OpenExcl (g @ ''.lock''), None),
               (WritePid (g @ ''.lock''), None)]
        \<and> fs (snd (acquireFileLock g u)) (g @ ''.lock'')
            = Some \<lparr>data = Doc (JInt (pid u)), modTime = clock u\<rparr>"
    using acquire_stale [of u g fl] by blast
  have call_gone: "(\<forall>n. n \<noteq> Suc (Suc (length (trace u))) \<longrightarrow> faults u n = None) \<and>
       faults u (Suc (Suc (length (trace u)))) = Some ErrNotExist \<and>
       fs u (g @ ''.lock'') = Some fl \<and> 30 * Second < clock u - modTime fl \<longrightarrow>
        fst (acquireFileLock g u)
          = Inr \<lparr>lockFile = Some (g @ ''.lock''), lockPath = g @ ''.lock''\<rparr>
        \<and> take 4 (events_since u (snd (acquireFileLock g u)))
            = [(OpenExcl (g @ ''.lock''), Some ErrExist), (Stat (g @ ''.lock''), None),
               (Remove (g @ ''.lock''), Some ErrNotExist),
               (OpenExcl (g @ ''.lock''), Some ErrExist)]
        \<and> filter is_Sleep (events_since u (snd (acquireFileLock g u))) = []"
    using acquire_gone [of u g fl] by blast
  have call_fresh: "(\<forall>n. faults u n = None) \<and> fs u (g @ ''.lock'') = Some fl \<and>
       clock u - modTime fl + 49 * (100 * Millisecond) \<le> 30 * Second \<longrightarrow>
        fst (acquireFileLock g u) = Inl (ErrLockTimeout (5 * Second))
        \<and> filter is_Sleep (events_since u (snd (acquireFileLock g u)))
            = replicate 50 (Sleep (100 * Millisecond), None)
        \<and> fs (snd (acquireFileLock g u)) = fs u"
    using acquire_fresh [of u g fl] by blast
  have call_open_error: "fault u = Some e \<and> e \<noteq> ErrExist \<longrightarrow>
        fst (acquireFileLock g u) = Inl (ErrAcquireFileLock e)
        \<and> events_since u (snd (acquireFileLock g u)) = [(OpenExcl (g @ ''.lock''), Some e)]"
    using acquire_open_error [of u e g] by blast
  have call_remove_error: "fs u (g @ ''.lock'') = Some fl \<and> 30 * Second < clock u - modTime fl \<and>
       faults u (length (trace u)) = None \<and> faults u (Suc (length (trace u))) = None \<and>
       faults u (Suc (Suc (length (trace u)))) = Some e \<and> e \<noteq> ErrNotExist \<longrightarrow>
        fst (acquireFileLock g u) = Inl (ErrRemoveStaleLock (g @ ''.lock'') e)
        \<and> events_since u (snd (acquireFileLock g u))
            = [(OpenExcl (g @ ''.lock''), Some ErrExist), (Stat (g @ ''.lock''), None),
               (Remove (g @ ''.lock''), Some e)]
        \<and> fs (snd (acquireFileLock g u)) = fs u"
    using acquire_remove_refused [of u g fl e] by blast
  show ?thesis
    by (intro conjI)
       (rule bound timeout five start returns goes_on gives_up created stale gone fresh
          stat_error open_error remove_error call_absent call_stale call_gone call_fresh
          call_open_error call_remove_error turn_cases)+
qed

text \<open>
  The specification says that an attempt that finds a stale lock file removes it and
  tries again. In the world below the lock file is 1000 seconds old and the removal is
  refused: the function returns an error after one attempt, the file is still there, and
  there is no second attempt.
\<close>

theorem acquireFileLock_stale_removal_refused:
  "fst (acquireFileLock ''tokens.json'' (world_of (lock_from 0) (fault_at 2 ErrPermission)))
     = Inl (ErrRemoveStaleLock ''tokens.json.lock'' ErrPermission)
   \<and> events_since (world_of (lock_from 0) (fault_at 2 ErrPermission))
        (snd (acquireFileLock ''tokens.json'' (world_of (lock_from 0) (fault_at 2 ErrPermission))))
     = [(OpenExcl ''tokens.json.lock'', Some ErrExist), (Stat ''tokens.json.lock'', None),
        (Remove ''tokens.json.lock'', Some ErrPermission)]
   \<and> fs (snd (acquireFileLock ''tokens.json'' (world_of (lock_from 0) (fault_at 2 ErrPermission))))
        ''tokens.json.lock''
     = Some \<lparr>data = Doc (JInt 999), modTime = 0\<rparr>"
  by code_simp

text \<open>
  A lock file written at second 1000, which is now, stays fresh through all 50 attempts:
  the function gives up with the timeout error after 50 pauses. A lock file from second
  0 is stale: it is removed and the lock is taken in the second attempt, also when the
  removal reports that the file is gone. With no lock file the first attempt takes the
  lock. A refused creation and a refused removal end the call at once.
\<close>

theorem acquireFileLock_bounded_witness:
  "fst (acquireFileLock ''tokens.json'' (world_of (lock_from 1000) no_faults))
     = Inl (ErrLockTimeout (5 * Second))
   \<and> length (filter is_OpenExcl (events_since (world_of (lock_from 1000) no_faults)
        (snd (acquireFileLock ''tokens.json'' (world_of (lock_from 1000) no_faults))))) = 50
   \<and> filter is_Sleep (events_since (world_of (lock_from 1000) no_faults)
        (snd (acquireFileLock ''tokens.json'' (world_of (lock_from 1000) no_faults))))
       = replicate 50 (Sleep (100 * Millisecond), None)
   \<and> fst (acquireFileLock ''tokens.json'' (world_of (lock_from 0) no_faults))
       = Inr \<lparr>lockFile = Some ''tokens.json.lock'', lockPath = ''tokens.json.lock''\<rparr>
   \<and> events_since (world_of (lock_from 0) no_faults)
        (snd (acquireFileLock ''tokens.json'' (world_of (lock_from 0) no_faults)))
       = [(OpenExcl ''tokens.json.lock'', Some ErrExist), (Stat ''tokens.json.lock'', None),
          (Remove ''tokens.json.lock'', None), (OpenExcl ''tokens.json.lock'', None),
          (WritePid ''tokens.json.lock'', None)]
   \<and> fst (acquireFileLock ''tokens.json'' (world_of (lock_from 0) (fault_at 2 ErrNotExist)))
       = Inr \<lparr>lockFile = Some ''tokens.json.lock'', lockPath = ''tokens.json.lock''\<rparr>
   \<and> filter is_Sleep (events_since (world_of (lock_from 0) (fault_at 2 ErrNotExist))
        (snd (acquireFileLock ''tokens.json'' (world_of (lock_from 0) (fault_at 2 ErrNotExist)))))
       = []
   \<and> fst (acquireFileLock ''tokens.json'' (world_of Map.empty no_faults))
       = Inr \<lparr>lockFile = Some ''tokens.json.lock'', lockPath = ''tokens.json.lock''\<rparr>
   \<and> fst (acquireFileLock ''tokens.json'' (world_of Map.empty (fault_at 0 ErrPermission)))
       = Inl (ErrAcquireFileLock ErrPermission)
   \<and> fst (acquireFileLock ''tokens.json'' (world_of (lock_from 0) (fault_at 2 ErrPermission)))
       = Inl (ErrRemoveStaleLock ''tokens.json.lock'' ErrPermission)
   \<and> acquire_loop 0 ''tokens.json.lock'' (world_of (lock_from 0) no_faults)
       = acquire_loop (0 + 1) ''tokens.json.lock''
           (snd (lock_attempt ''tokens.json.lock'' (world_of (lock_from 0) no_faults)))
   \<and> fst (lock_attempt ''tokens.json.lock'' (world_of Map.empty no_faults))
       = Return (Inr \<lparr>lockFile = Some ''tokens.json.lock'', lockPath = ''tokens.json.lock''\<rparr>)
   \<and> fst (lock_attempt ''tokens.json.lock'' (world_of (lock_from 0) no_faults)) = Continue
   \<and> fs (snd (lock_attempt ''tokens.json.lock'' (world_of (lock_from 0) no_faults)))
        ''tokens.json.lock'' = None
   \<and> fst (lock_attempt ''tokens.json.lock'' (world_of (lock_from 0) (fault_at 2 ErrNotExist)))
       = Continue
   \<and> fst (lock_attempt ''tokens.json.lock'' (world_of (lock_from 1000) no_faults)) = Continue
   \<and> filter is_Sleep (events_since (world_of (lock_from 1000) no_faults)
        (snd (lock_attempt ''tokens.json.lock'' (world_of (lock_from 1000) no_faults))))
       = [(Sleep (100 * Millisecond), None)]
   \<and> fst (lock_attempt ''tokens.json.lock'' (world_of (lock_from 1000) (fault_at 1 ErrPermission)))
       = Continue
   \<and> fst (lock_attempt ''tokens.json.lock'' (world_of Map.empty (fault_at 0 ErrPermission)))
       = Return (Inl (ErrAcquireFileLock ErrPermission))
   \<and> fst (lock_attempt ''tokens.json.lock'' (world_of (lock_from 0) (fault_at 2 ErrPermission)))
       = Return (Inl (ErrRemoveStaleLock ''tokens.json.lock'' ErrPermission))"
proof -
  let ?lp = "''tokens.json.lock''"
  let ?old = "\<lparr>data = Doc (JInt 999), modTime = 0 * Second\<rparr>"
  let ?new = "\<lparr>data = Doc (JInt 999), modTime = 1000 * Second\<rparr>"
  have lp: "''tokens.json'' @ ''.lock'' = ?lp" by simp
  have nf: "\<forall>n. faults (world_of files no_faults) n = None" for files
    by (simp add: world_of_def no_faults_def)
  have stale: "fs (world_of (lock_from 0) fl) ?lp = Some ?old"
    "30 * Second < clock (world_of (lock_from 0) fl) - modTime ?old"
    for fl by (simp_all add: world_of_def lock_from_def Second_def)
  have fresh: "fs (world_of (lock_from 1000) fl) ?lp = Some ?new"
    "clock (world_of (lock_from 1000) fl) - modTime ?new \<le> 30 * Second"
    "clock (world_of (lock_from 1000) fl) - modTime ?new + 49 * (100 * Millisecond) \<le> 30 * Second"
    for fl by (simp_all add: world_of_def lock_from_def Second_def Millisecond_def)
  have absent: "fault (world_of Map.empty no_faults) = None"
    "fs (world_of Map.empty fl) ?lp = None" for fl
    by (simp_all add: world_of_def no_faults_def fault_def)
  have denied: "fault (world_of files (fault_at 0 ErrPermission)) = Some ErrPermission"
    "ErrPermission \<noteq> ErrExist" "ErrPermission \<noteq> ErrNotExist" for files
    by (simp_all add: world_of_def fault_at_def fault_def)
  have third: "faults (world_of files (fault_at 2 e)) (length (trace (world_of files (fault_at 2 e)))) = None"
    "faults (world_of files (fault_at 2 e)) (Suc (length (trace (world_of files (fault_at 2 e))))) = None"
    "faults (world_of files (fault_at 2 e)) (Suc (Suc (length (trace (world_of files (fault_at 2 e))))))
       = Some e"
    "\<forall>n. n \<noteq> Suc (Suc (length (trace (world_of files (fault_at 2 e)))))
        \<longrightarrow> faults (world_of files (fault_at 2 e)) n = None"
    for files e by (simp_all add: world_of_def fault_at_def)
  have second: "faults (world_of files (fault_at 1 e)) (length (trace (world_of files (fault_at 1 e)))) = None"
    "faults (world_of files (fault_at 1 e)) (Suc (length (trace (world_of files (fault_at 1 e))))) = Some e"
    for files e by (simp_all add: world_of_def fault_at_def)
  note t = acquireFileLock_bounded
  note t_fresh = t [where w = "world_of (lock_from 1000) no_faults" and f = "''tokens.json''"
      and u = "world_of (lock_from 1000) no_faults" and g = "''tokens.json''" and fl = ?new
      and v = "world_of (lock_from 1000) no_faults" and lp = ?lp, unfolded lp]
  have 1: "fst (acquireFileLock ''tokens.json'' (world_of (lock_from 1000) no_faults))
     = Inl (ErrLockTimeout (5 * Second))
   \<and> filter is_Sleep (events_since (world_of (lock_from 1000) no_faults)
        (snd (acquireFileLock ''tokens.json'' (world_of (lock_from 1000) no_faults))))
       = replicate 50 (Sleep (100 * Millisecond), None)"
    using t_fresh [THEN conjunct2, THEN conjunct2, THEN conjunct2, THEN conjunct2,
        THEN conjunct2, THEN conjunct2, THEN conjunct2, THEN conjunct2,
        THEN conjunct2, THEN conjunct2, THEN conjunct2, THEN conjunct2,
        THEN conjunct2, THEN conjunct2, THEN conjunct2, THEN conjunct2,
        THEN conjunct2, THEN conjunct1]
      nf [of "lock_from 1000"] fresh [of no_faults] by blast
  have 2: "length (filter is_OpenExcl (events_since (world_of (lock_from 1000) no_faults)
        (snd (acquireFileLock ''tokens.json'' (world_of (lock_from 1000) no_faults))))) = 50"
    using t_fresh [THEN conjunct2, THEN conjunct1]
      1 by blast
  have 3: "fst (lock_attempt ?lp (world_of (lock_from 1000) no_faults)) = Continue
   \<and> filter is_Sleep (events_since (world_of (lock_from 1000) no_faults)
        (snd (lock_attempt ?lp (world_of (lock_from 1000) no_faults))))
       = [(Sleep (100 * Millisecond), None)]"
    using t_fresh [THEN conjunct2, THEN conjunct2, THEN conjunct2, THEN conjunct2,
        THEN conjunct2, THEN conjunct2, THEN conjunct2, THEN conjunct2,
        THEN conjunct2, THEN conjunct2, THEN conjunct1]
      nf [of "lock_from 1000"] fresh [of no_faults] by blast
  note t_stale = t [where u = "world_of (lock_from 0) no_faults" and g = "''tokens.json''"
      and fl = ?old and v = "world_of (lock_from 0) no_faults" and lp = ?lp and i = 0,
      unfolded lp]
  have 4: "fst (acquireFileLock ''tokens.json'' (world_of (lock_from 0) no_faults))
       = Inr \<lparr>lockFile = Some ?lp, lockPath = ?lp\<rparr>
   \<and> events_since (world_of (lock_from 0) no_faults)
        (snd (acquireFileLock ''tokens.json'' (world_of (lock_from 0) no_faults)))
       = [(OpenExcl ?lp, Some ErrExist), (Stat ?lp, None),
          (Remove ?lp, None), (OpenExcl ?lp, None), (WritePid ?lp, None)]"
    using t_stale [THEN conjunct2, THEN conjunct2, THEN conjunct2, THEN conjunct2,
        THEN conjunct2, THEN conjunct2, THEN conjunct2, THEN conjunct2,
        THEN conjunct2, THEN conjunct2, THEN conjunct2, THEN conjunct2,
        THEN conjunct2, THEN conjunct2, THEN conjunct2, THEN conjunct1]
      nf [of "lock_from 0"] stale [of no_faults] by blast
  have 5: "fst (lock_attempt ?lp (world_of (lock_from 0) no_faults)) = Continue
   \<and> fs (snd (lock_attempt ?lp (world_of (lock_from 0) no_faults))) ?lp = None"
    using t_stale [THEN conjunct2, THEN conjunct2, THEN conjunct2, THEN conjunct2,
        THEN conjunct2, THEN conjunct2, THEN conjunct2, THEN conjunct2,
        THEN conjunct1]
      nf [of "lock_from 0"] stale [of no_faults] by blast
  have 6: "acquire_loop 0 ?lp (world_of (lock_from 0) no_faults)
       = acquire_loop (0 + 1) ?lp (snd (lock_attempt ?lp (world_of (lock_from 0) no_faults)))"
    using t_stale [THEN conjunct2, THEN conjunct2, THEN conjunct2, THEN conjunct2,
        THEN conjunct2, THEN conjunct1]
      5 by simp
  note t_gone = t [where u = "world_of (lock_from 0) (fault_at 2 ErrNotExist)"
      and g = "''tokens.json''" and fl = ?old
      and v = "world_of (lock_from 0) (fault_at 2 ErrNotExist)" and lp = ?lp, unfolded lp]
  have 7: "fst (acquireFileLock ''tokens.json'' (world_of (lock_from 0) (fault_at 2 ErrNotExist)))
       = Inr \<lparr>lockFile = Some ?lp, lockPath = ?lp\<rparr>
   \<and> filter is_Sleep (events_since (world_of (lock_from 0) (fault_at 2 ErrNotExist))
        (snd (acquireFileLock ''tokens.json'' (world_of (lock_from 0) (fault_at 2 ErrNotExist)))))
       = []"
    using t_gone [THEN conjunct2, THEN conjunct2, THEN conjunct2, THEN conjunct2,
        THEN conjunct2, THEN conjunct2, THEN conjunct2, THEN conjunct2,
        THEN conjunct2, THEN conjunct2, THEN conjunct2, THEN conjunct2,
        THEN conjunct2, THEN conjunct2, THEN conjunct2, THEN conjunct2,
        THEN conjunct1]
      third [of "lock_from 0" ErrNotExist] stale [of "fault_at 2 ErrNotExist"]
    by blast
  have 8: "fst (lock_attempt ?lp (world_of (lock_from 0) (fault_at 2 ErrNotExist))) = Continue"
    using t_gone [THEN conjunct2, THEN conjunct2, THEN conjunct2, THEN conjunct2,
        THEN conjunct2, THEN conjunct2, THEN conjunct2, THEN conjunct2,
        THEN conjunct2, THEN conjunct1]
      third [of "lock_from 0" ErrNotExist] stale [of "fault_at 2 ErrNotExist"]
    by blast
  note t_absent = t [where u = "world_of Map.empty no_faults" and g = "''tokens.json''"
      and v = "world_of Map.empty no_faults" and lp = ?lp, unfolded lp]
  have 9: "fst (acquireFileLock ''tokens.json'' (world_of Map.empty no_faults))
       = Inr \<lparr>lockFile = Some ?lp, lockPath = ?lp\<rparr>"
    using t_absent [THEN conjunct2, THEN conjunct2, THEN conjunct2, THEN conjunct2,
        THEN conjunct2, THEN conjunct2, THEN conjunct2, THEN conjunct2,
        THEN conjunct2, THEN conjunct2, THEN conjunct2, THEN conjunct2,
        THEN conjunct2, THEN conjunct2, THEN conjunct1]
      absent by blast
  have 10: "fst (lock_attempt ?lp (world_of Map.empty no_faults))
       = Return (Inr \<lparr>lockFile = Some ?lp, lockPath = ?lp\<rparr>)"
    using t_absent [THEN conjunct2, THEN conjunct2, THEN conjunct2, THEN conjunct2,
        THEN conjunct2, THEN conjunct2, THEN conjunct2, THEN conjunct1]
      absent by blast
  note t_denied = t [where u = "world_of Map.empty (fault_at 0 ErrPermission)"
      and g = "''tokens.json''" and e = ErrPermission
      and v = "world_of Map.empty (fault_at 0 ErrPermission)" and lp = ?lp, unfolded lp]
  have 11: "fst (acquireFileLock ''tokens.json'' (world_of Map.empty (fault_at 0 ErrPermission)))
       = Inl (ErrAcquireFileLock ErrPermission)"
    using t_denied [THEN conjunct2, THEN conjunct2, THEN conjunct2, THEN conjunct2,
        THEN conjunct2, THEN conjunct2, THEN conjunct2, THEN conjunct2,
        THEN conjunct2, THEN conjunct2, THEN conjunct2, THEN conjunct2,
        THEN conjunct2, THEN conjunct2, THEN conjunct2, THEN conjunct2,
        THEN conjunct2, THEN conjunct2, THEN conjunct1]
      denied by blast
  have 12: "fst (lock_attempt ?lp (world_of Map.empty (fault_at 0 ErrPermission)))
       = Return (Inl (ErrAcquireFileLock ErrPermission))"
    using t_denied [THEN conjunct2, THEN conjunct2, THEN conjunct2, THEN conjunct2,
        THEN conjunct2, THEN conjunct2, THEN conjunct2, THEN conjunct2,
        THEN conjunct2, THEN conjunct2, THEN conjunct2, THEN conjunct2,
        THEN conjunct1]
      denied by blast
  note t_refused = t [where u = "world_of (lock_from 0) (fault_at 2 ErrPermission)"
      and g = "''tokens.json''" and e = ErrPermission and fl = ?old
      and v = "world_of (lock_from 0) (fault_at 2 ErrPermission)" and lp = ?lp, unfolded lp]
  have 13: "fst (acquireFileLock ''tokens.json'' (world_of (lock_from 0) (fault_at 2 ErrPermission)))
       = Inl (ErrRemoveStaleLock ?lp ErrPermission)"
    using t_refused [THEN conjunct2, THEN conjunct2, THEN conjunct2, THEN conjunct2,
        THEN conjunct2, THEN conjunct2, THEN conjunct2, THEN conjunct2,
        THEN conjunct2, THEN conjunct2, THEN conjunct2, THEN conjunct2,
        THEN conjunct2, THEN conjunct2, THEN conjunct2, THEN conjunct2,
        THEN conjunct2, THEN conjunct2, THEN conjunct2, THEN conjunct1]
      third [of "lock_from 0" ErrPermission] stale [of "fault_at 2 ErrPermission"]
      denied(3) by blast
  have 14: "fst (lock_attempt ?lp (world_of (lock_from 0) (fault_at 2 ErrPermission)))
       = Return (Inl (ErrRemoveStaleLock ?lp ErrPermission))"
    using t_refused [THEN conjunct2, THEN conjunct2, THEN conjunct2, THEN conjunct2,
        THEN conjunct2, THEN conjunct2, THEN conjunct2, THEN conjunct2,
        THEN conjunct2, THEN conjunct2, THEN conjunct2, THEN conjunct2,
        THEN conjunct2, THEN conjunct1]
      third [of "lock_from 0" ErrPermission] stale [of "fault_at 2 ErrPermission"]
      denied(3) by blast
  note t_unread = t [where v = "world_of (lock_from 1000) (fault_at 1 ErrPermission)" and lp = ?lp
      and fl = ?new and e = ErrPermission]
  have 15: "fst (lock_attempt ?lp (world_of (lock_from 1000) (fault_at 1 ErrPermission))) = Continue"
    using t_unread [THEN conjunct2, THEN conjunct2, THEN conjunct2, THEN conjunct2,
        THEN conjunct2, THEN conjunct2, THEN conjunct2, THEN conjunct2,
        THEN conjunct2, THEN conjunct2, THEN conjunct2, THEN conjunct1]
      second [of "lock_from 1000" ErrPermission] fresh(1) [of "fault_at 1 ErrPermission"] by blast
  show ?thesis
    by (intro conjI)
       (rule 1 [THEN conjunct1] 1 [THEN conjunct2] 2 3 [THEN conjunct1] 3 [THEN conjunct2]
          4 [THEN conjunct1] 4 [THEN conjunct2] 5 [THEN conjunct1] 5 [THEN conjunct2] 6
          7 [THEN conjunct1] 7 [THEN conjunct2] 8 9 10 11 12 13 14 15)+
qed

section \<open>Properties of the JSON codec\<close>










section \<open>Properties of the token store\<close>

lemma attempt_lock:
  "lock_attempt lp w = (Return (Inr lock), w1) \<Longrightarrow> lock = \<lparr>lockFile = Some lp, lockPath = lp\<rparr>"
  by (auto simp: lock_attempt_def os_OpenFile_excl_def
      split: prod.splits sum.splits option.splits if_splits)

lemma loop_lock:
  "acquire_loop i lp w = (Inr lock, w1) \<Longrightarrow> lock = \<lparr>lockFile = Some lp, lockPath = lp\<rparr>"
proof (induction i lp w rule: acquire_loop.induct)
  case (1 i lp w)
  then show ?case
    by (auto simp: acquire_loop.simps [of i] dest: attempt_lock
        split: if_splits prod.splits lock_step.splits)
qed

lemma lock_only_release:
  "lock_only lp w (snd (release \<lparr>lockFile = Some lp, lockPath = lp\<rparr> w))"
  using lock_only_close [of lp w] lock_only_remove [of lp "File_Close lp w"] lock_only_trans
  by (auto simp: release_def)

lemma lock_only_fs: "lock_only lp w w' \<Longrightarrow> p \<noteq> lp \<Longrightarrow> fs w' p = fs w p"
  by (auto simp: lock_only_def)

lemma lock_only_events:
  "lock_only lp w w' \<Longrightarrow> trace w' = trace w @ events_since w w' \<and>
     (\<forall>ev\<in>set (events_since w w'). lock_event lp ev)"
  by (auto simp: lock_only_def events_since_def)

lemma locked_effect:
  "saveTokens_locked cfg st w1 = (err, w2) \<Longrightarrow>
     \<exists>r0 evs. trace w2 = trace w1 @ (ReadFile (tokenFile cfg), r0) # evs
       \<and> (r0 = None \<longrightarrow> (\<exists>f. fs w1 (tokenFile cfg) = Some f \<and>
              fst (os_ReadFile (tokenFile cfg) w1) = Inr (data f)))
       \<and> (err \<noteq> None \<longrightarrow> fs w2 (tokenFile cfg) = fs w1 (tokenFile cfg))
       \<and> (err = None \<longrightarrow>
            (\<exists>d mt. fs w2 (tokenFile cfg) = Some \<lparr>data = d, modTime = mt\<rparr> \<and>
               MarshalIndent_TokenStorageMap
                 \<lparr>Tokens = Some (AList.update (ClientID st) (Some st)
                    (existing_tokens (fst (os_ReadFile (tokenFile cfg) w1))))\<rparr> = Inr d))
       \<and> (\<forall>p q e. (Rename p q, Some e) \<in> set evs \<longrightarrow>
            (((Remove (tokenFile cfg @ ''.tmp''), None) \<in> set evs \<and>
                err = Some (ErrRenameTempFile e)) \<or>
             (\<exists>re. (Remove (tokenFile cfg @ ''.tmp''), Some re) \<in> set evs \<and>
                err = Some (ErrRenameAndRemoveTempFile e re)))
            \<and> fs w2 (tokenFile cfg) = fs w1 (tokenFile cfg))"
  by (auto simp: saveTokens_locked_def os_ReadFile_def os_WriteFile_def os_Rename_def
        os_Remove_def logged_def fault_def Let_def
      split: option.splits sum.splits prod.splits if_splits)

lemma saveTokens_cases:
  "saveTokens cfg storage w = (st, err, w') \<Longrightarrow>
     st = (if ClientID storage = '''' then storage\<lparr>ClientID := clientID cfg\<rparr> else storage) \<and>
     ((\<exists>e. err = Some (ErrAcquireLock e)) \<and> lock_only (tokenFile cfg @ ''.lock'') w w' \<or>
      (\<exists>w1 w2. lock_only (tokenFile cfg @ ''.lock'') w w1 \<and>
         saveTokens_locked cfg st w1 = (err, w2) \<and>
         lock_only (tokenFile cfg @ ''.lock'') w2 w'))"
proof -
  assume a: "saveTokens cfg storage w = (st, err, w')"
  let ?lp = "tokenFile cfg @ ''.lock''"
  let ?st = "if ClientID storage = '''' then storage\<lparr>ClientID := clientID cfg\<rparr> else storage"
  obtain r w1 where acq: "acquire_loop 0 ?lp w = (r, w1)" by fastforce
  have l1: "lock_only ?lp w w1" using lock_only_loop [of ?lp w 0] acq by simp
  show ?thesis
  proof (cases r)
    case (Inl e)
    then show ?thesis using a acq l1 by (auto simp: saveTokens_def acquireFileLock_def Let_def)
  next
    case (Inr lock)
    then have lock: "lock = \<lparr>lockFile = Some ?lp, lockPath = ?lp\<rparr>"
      using loop_lock acq by blast
    obtain err2 w2 where body: "saveTokens_locked cfg ?st w1 = (err2, w2)" by fastforce
    have l2: "lock_only ?lp w2 (snd (release lock w2))" using lock lock_only_release by simp
    have "st = ?st" "err = err2" "w' = snd (release lock w2)"
      using a acq Inr body by (auto simp: saveTokens_def acquireFileLock_def Let_def)
    then show ?thesis using l1 l2 body by auto
  qed
qed

lemma lock_event_not_Rename: "lock_event lp (Rename p q, r) = False"
  by simp

text \<open>
  C7. Whenever the rename of the temporary file over the token file fails in
  \<open>saveTokens\<close>, the removal of the temporary file is attempted; the error returned is
  the one of the rename when the removal works, and names both failures when the removal
  fails too; and the token file is the one from before the call.
\<close>

theorem saveTokens_rename_failure:
  "saveTokens cfg storage w = (st, err, w') \<Longrightarrow>
   (Rename (tokenFile cfg @ ''.tmp'') (tokenFile cfg), Some e) \<in> set (events_since w w') \<Longrightarrow>
     (((Remove (tokenFile cfg @ ''.tmp''), None) \<in> set (events_since w w') \<and>
         err = Some (ErrRenameTempFile e)) \<or>
      (\<exists>re. (Remove (tokenFile cfg @ ''.tmp''), Some re) \<in> set (events_since w w') \<and>
         err = Some (ErrRenameAndRemoveTempFile e re)))
     \<and> fs w' (tokenFile cfg) = fs w (tokenFile cfg)"
proof -
  assume a: "saveTokens cfg storage w = (st, err, w')"
    and ren: "(Rename (tokenFile cfg @ ''.tmp'') (tokenFile cfg), Some e) \<in> set (events_since w w')"
  let ?lp = "tokenFile cfg @ ''.lock''"
  let ?tf = "tokenFile cfg"
  have ne: "?tf \<noteq> ?lp" by simp
  from saveTokens_cases [OF a] consider
      (nolock) "lock_only ?lp w w'"
    | (locked) w1 w2 where "lock_only ?lp w w1" "saveTokens_locked cfg st w1 = (err, w2)"
        "lock_only ?lp w2 w'"
    by blast
  then show ?thesis
  proof cases
    case nolock
    from lock_only_events [OF nolock] ren have False by fastforce
    then show ?thesis ..
  next
    case locked
    from locked_effect [OF locked(2)] obtain r0 evs where
      tr: "trace w2 = trace w1 @ (ReadFile ?tf, r0) # evs"
      and rn: "\<forall>p q e. (Rename p q, Some e) \<in> set evs \<longrightarrow>
            (((Remove (?tf @ ''.tmp''), None) \<in> set evs \<and> err = Some (ErrRenameTempFile e)) \<or>
             (\<exists>re. (Remove (?tf @ ''.tmp''), Some re) \<in> set evs \<and>
                err = Some (ErrRenameAndRemoveTempFile e re)))
            \<and> fs w2 ?tf = fs w1 ?tf"
      by blast
    from lock_only_events [OF locked(1)] have e1: "trace w1 = trace w @ events_since w w1"
      "\<forall>ev\<in>set (events_since w w1). lock_event ?lp ev" by auto
    from lock_only_events [OF locked(3)] have e3: "trace w' = trace w2 @ events_since w2 w'"
      "\<forall>ev\<in>set (events_since w2 w'). lock_event ?lp ev" by auto
    have all: "events_since w w' = events_since w w1 @ (ReadFile ?tf, r0) # evs @ events_since w2 w'"
      using e1(1) e3(1) tr by (simp add: events_since_def [of w w'])
    have "(Rename (?tf @ ''.tmp'') ?tf, Some e) \<in> set evs"
      using ren all e1(2) e3(2) by auto
    with rn have
      "(((Remove (?tf @ ''.tmp''), None) \<in> set evs \<and> err = Some (ErrRenameTempFile e)) \<or>
             (\<exists>re. (Remove (?tf @ ''.tmp''), Some re) \<in> set evs \<and>
                err = Some (ErrRenameAndRemoveTempFile e re)))"
      and fs2: "fs w2 ?tf = fs w1 ?tf" by blast+
    moreover have "set evs \<subseteq> set (events_since w w')" using all by auto
    moreover have "fs w' ?tf = fs w ?tf"
      using fs2 lock_only_fs [OF locked(1) ne] lock_only_fs [OF locked(3) ne] by simp
    ultimately show ?thesis by blast
  qed
qed

text \<open>
  A run in which the rename is refused: the fifth call of \<open>saveTokens\<close> fails. The
  temporary file is then removed, the error is the one of the rename, and the token file
  is the one from before.
\<close>

lemma rename_refused_events:
  "events_since (world_of (with_store store_a) (fault_at 4 ErrPermission))
     (snd (snd (saveTokens cfg_b token_b (world_of (with_store store_a) (fault_at 4 ErrPermission)))))
   = [(OpenExcl ''tokens.json.lock'', None), (WritePid ''tokens.json.lock'', None),
      (ReadFile ''tokens.json'', None), (WriteFile ''tokens.json.tmp'', None),
      (Rename ''tokens.json.tmp'' ''tokens.json'', Some ErrPermission),
      (Remove ''tokens.json.tmp'', None),
      (Close ''tokens.json.lock'', None), (Remove ''tokens.json.lock'', None)]"
  by code_simp

theorem saveTokens_rename_failure_witness:
  "fst (snd (saveTokens cfg_b token_b (world_of (with_store store_a) (fault_at 4 ErrPermission))))
     = Some (ErrRenameTempFile ErrPermission)
   \<and> fs (snd (snd (saveTokens cfg_b token_b
          (world_of (with_store store_a) (fault_at 4 ErrPermission))))) ''tokens.json''
     = fs (world_of (with_store store_a) (fault_at 4 ErrPermission)) ''tokens.json''"
proof -
  let ?w = "world_of (with_store store_a) (fault_at 4 ErrPermission)"
  let ?r = "saveTokens cfg_b token_b ?w"
  have r: "?r = (fst ?r, fst (snd ?r), snd (snd ?r))" by simp
  have tf: "tokenFile cfg_b = ''tokens.json''" by (simp add: cfg_b_def)
  have ren: "(Rename (tokenFile cfg_b @ ''.tmp'') (tokenFile cfg_b), Some ErrPermission)
               \<in> set (events_since ?w (snd (snd ?r)))"
    unfolding rename_refused_events tf by simp
  have no: "\<not> (\<exists>re. (Remove (tokenFile cfg_b @ ''.tmp''), Some re) \<in> set (events_since ?w (snd (snd ?r))))"
    unfolding rename_refused_events tf by simp
  from saveTokens_rename_failure [OF r ren] no show ?thesis unfolding tf by blast
qed













section \<open>Properties of token response validation\<close>

text \<open>
  C4. \<open>validateTokenResponse\<close> returns an error exactly when the access token is empty,
  or shorter than 10 characters, or \<open>expires_in\<close> is not strictly positive, or the token
  type is non-empty and not \<open>Bearer\<close>; with an access token of at least 10 characters, a
  positive \<open>expires_in\<close> and a token type that is \<open>Bearer\<close> or empty it returns no error.
\<close>

theorem validateTokenResponse_error_iff:
  "(validateTokenResponse accessToken tokenType expiresIn \<noteq> None) =
     (accessToken = '''' \<or> length accessToken < 10 \<or> expiresIn \<le> 0 \<or>
      (tokenType \<noteq> '''' \<and> tokenType \<noteq> ''Bearer''))
   \<and> (10 \<le> length accessToken \<and> 0 < expiresIn \<and> (tokenType = ''Bearer'' \<or> tokenType = '''')
        \<longrightarrow> validateTokenResponse accessToken tokenType expiresIn = None)"
  by (auto simp: validateTokenResponse_def)

text \<open>The cases of the program's own test table.\<close>

theorem validateTokenResponse_error_iff_witness:
  "validateTokenResponse ''a-long-enough-token'' ''Bearer'' 3600 = None
   \<and> validateTokenResponse ''a-long-enough-token'' '''' 3600 = None
   \<and> validateTokenResponse '''' ''Bearer'' 3600 \<noteq> None
   \<and> validateTokenResponse ''short'' ''Bearer'' 3600 \<noteq> None
   \<and> validateTokenResponse ''a-long-enough-token'' ''Bearer'' 0 \<noteq> None
   \<and> validateTokenResponse ''a-long-enough-token'' ''Bearer'' (- 1) \<noteq> None
   \<and> validateTokenResponse ''a-long-enough-token'' ''MAC'' 3600 \<noteq> None"
  using validateTokenResponse_error_iff [of "''a-long-enough-token''" "''Bearer''" 3600]
        validateTokenResponse_error_iff [of "''a-long-enough-token''" "''''" 3600]
        validateTokenResponse_error_iff [of "''''" "''Bearer''" 3600]
        validateTokenResponse_error_iff [of "''short''" "''Bearer''" 3600]
        validateTokenResponse_error_iff [of "''a-long-enough-token''" "''Bearer''" 0]
        validateTokenResponse_error_iff [of "''a-long-enough-token''" "''Bearer''" "- 1"]
        validateTokenResponse_error_iff [of "''a-long-enough-token''" "''MAC''" 3600]
  by simp

section \<open>Properties of the token refresh\<close>

lemmas refresh_defs =
  server_says_def invalid_grant_body_def invalid_client_body_def fixed_mode_body_def
  rotating_body_def refresh_request_def StatusOK_def
  Unmarshal_ErrorResponse_def set_ErrorResponse_field_def zero_ErrorResponse_def
  Unmarshal_tokenResp_def set_tokenResp_field_def tokenResp_fields_def zero_tokenResp_def
  unmarshal_struct_def find_field_def


text \<open>
  C8, as the code has it. \<open>refreshAccessToken\<close> returns \<open>ErrRefreshTokenExpired\<close> exactly
  when the response that the outbound client hands back has a status other than 200 and
  its body decodes as an error object whose error is \<open>invalid_grant\<close> or \<open>invalid_token\<close>.
  Every other response with a status other than 200 gives an error that carries the
  error code and description of the body when the body decodes as an error object, and
  the status and the body when it does not. At its start \<open>main\<close> does not tell these
  errors apart: when the stored access token has run out and the refresh fails with any
  error, it calls \<open>performAuthCodeFlow\<close>, unless the context is cancelled, in which case
  it exits with status 130.
\<close>

theorem refresh_expired_iff:
  "(fst (refreshAccessToken cfg client refreshToken w) = Inl ErrRefreshTokenExpired) =
     (\<exists>status body errResp.
        client (refresh_request cfg refreshToken) = Response status (Inr body) \<and>
        status \<noteq> StatusOK \<and> Unmarshal_ErrorResponse body = Inr errResp \<and>
        (Error errResp = ''invalid_grant'' \<or> Error errResp = ''invalid_token''))
   \<and> (client (refresh_request cfg refreshToken) = Response st (Inr bd) \<and> st \<noteq> StatusOK \<and>
       fst (refreshAccessToken cfg client refreshToken w) \<noteq> Inl ErrRefreshTokenExpired \<longrightarrow>
         fst (refreshAccessToken cfg client refreshToken w) =
           (case Unmarshal_ErrorResponse bd of
              Inr errResp \<Rightarrow> Inl (ErrServer (Error errResp) (ErrorDescription errResp))
            | Inl jsonErr \<Rightarrow> Inl (ErrRefreshFailedStatus st bd)))
   \<and> (fst (loadTokens cfg v) = Inr (Some existing) \<and>
       \<not> clock (snd (loadTokens cfg v)) < ExpiresAt existing \<and>
       fst (refreshAccessToken cfg client (RefreshToken existing) (snd (loadTokens cfg v)))
         = Inl err \<longrightarrow>
         fst (main_startup cfg client ctxErr v)
           = (if ctxErr \<noteq> None then Exit 130 else PerformAuthCodeFlow))"
proof -
  have a: "(fst (refreshAccessToken cfg client refreshToken w) = Inl ErrRefreshTokenExpired) =
     (\<exists>status body errResp.
        client (refresh_request cfg refreshToken) = Response status (Inr body) \<and>
        status \<noteq> StatusOK \<and> Unmarshal_ErrorResponse body = Inr errResp \<and>
        (Error errResp = ''invalid_grant'' \<or> Error errResp = ''invalid_token''))"
    by (auto simp: refreshAccessToken_def Let_def
        split: http_outcome.splits sum.splits option.splits prod.splits)
  have b: "client (refresh_request cfg refreshToken) = Response st (Inr bd) \<and> st \<noteq> StatusOK \<and>
       fst (refreshAccessToken cfg client refreshToken w) \<noteq> Inl ErrRefreshTokenExpired \<longrightarrow>
         fst (refreshAccessToken cfg client refreshToken w) =
           (case Unmarshal_ErrorResponse bd of
              Inr errResp \<Rightarrow> Inl (ErrServer (Error errResp) (ErrorDescription errResp))
            | Inl jsonErr \<Rightarrow> Inl (ErrRefreshFailedStatus st bd))"
    by (auto simp: refreshAccessToken_def Let_def
        split: http_outcome.splits sum.splits option.splits prod.splits)
  have c: "fst (loadTokens cfg v) = Inr (Some existing) \<and>
       \<not> clock (snd (loadTokens cfg v)) < ExpiresAt existing \<and>
       fst (refreshAccessToken cfg client (RefreshToken existing) (snd (loadTokens cfg v)))
         = Inl err \<longrightarrow>
         fst (main_startup cfg client ctxErr v)
           = (if ctxErr \<noteq> None then Exit 130 else PerformAuthCodeFlow)"
    by (cases "loadTokens cfg v";
        cases "refreshAccessToken cfg client (RefreshToken existing) (snd (loadTokens cfg v))")
       (simp add: main_startup_def)
  show ?thesis by (rule conjI [OF a conjI [OF b c]])
qed

text \<open>
  Not only the expired refresh token leads to a new authorization. Below, the stored
  access token of \<open>client-a\<close> has run out and the
  authorization server rejects the client: the refresh fails with an error that is not
  \<open>ErrRefreshTokenExpired\<close>, and \<open>main\<close> calls \<open>performAuthCodeFlow\<close> all the same.
\<close>

theorem refresh_error_starts_authorization:
  "fst (loadTokens cfg_a (world_of (with_store store_expired) no_faults))
     = Inr (Some \<lparr>AccessToken = ''token-client-a'', RefreshToken = ''refresh-client-a'',
                   TokenType = ''Bearer'', ExpiresAt = 900 * Second, ClientID = ''client-a''\<rparr>)
   \<and> fst (refreshAccessToken cfg_a (server_says 401 invalid_client_body) ''refresh-client-a''
          (snd (loadTokens cfg_a (world_of (with_store store_expired) no_faults))))
     = Inl (ErrServer ''invalid_client'' ''Client authentication failed'')
   \<and> fst (main_startup cfg_a (server_says 401 invalid_client_body) None
          (world_of (with_store store_expired) no_faults))
     = PerformAuthCodeFlow"
  by code_simp

text \<open>
  The answers of an authorization server to a refresh: the refresh token has expired;
  the client is rejected with an error object; the request is refused with a body that
  is no JSON. With the expired access token of \<open>client-a\<close> in the token file, \<open>main\<close> calls
  \<open>performAuthCodeFlow\<close> after the first of them.
\<close>

lemma expired_store_loads:
  "fst (loadTokens cfg_a (world_of (with_store store_expired) no_faults))
     = Inr (Some \<lparr>AccessToken = ''token-client-a'', RefreshToken = ''refresh-client-a'',
                   TokenType = ''Bearer'', ExpiresAt = 900 * Second, ClientID = ''client-a''\<rparr>)
   \<and> \<not> clock (snd (loadTokens cfg_a (world_of (with_store store_expired) no_faults)))
        < 900 * Second"
  by code_simp

theorem refresh_expired_iff_witness:
  "fst (refreshAccessToken cfg_a (server_says 400 invalid_grant_body) ''refresh-client-a''
          (snd (loadTokens cfg_a (world_of (with_store store_expired) no_faults))))
     = Inl ErrRefreshTokenExpired
   \<and> fst (refreshAccessToken cfg_a (server_says 401 invalid_client_body) ''old-refresh-token''
          (world_of Map.empty no_faults))
     = Inl (ErrServer ''invalid_client'' ''Client authentication failed'')
   \<and> fst (refreshAccessToken cfg_a (server_says 403 (Raw ''Forbidden'')) ''old-refresh-token''
          (world_of Map.empty no_faults)) = Inl (ErrRefreshFailedStatus 403 (Raw ''Forbidden''))
   \<and> fst (main_startup cfg_a (server_says 400 invalid_grant_body) None
          (world_of (with_store store_expired) no_faults)) = PerformAuthCodeFlow"
proof -
  let ?w = "world_of Map.empty no_faults"
  let ?v = "world_of (with_store store_expired) no_faults"
  let ?existing = "\<lparr>AccessToken = ''token-client-a'', RefreshToken = ''refresh-client-a'',
                   TokenType = ''Bearer'', ExpiresAt = 900 * Second, ClientID = ''client-a''\<rparr>"
  have 1: "\<exists>status body errResp.
        server_says 400 invalid_grant_body (refresh_request cfg_a rt)
          = Response status (Inr body) \<and>
        status \<noteq> StatusOK \<and> Unmarshal_ErrorResponse body = Inr errResp \<and>
        (Error errResp = ''invalid_grant'' \<or> Error errResp = ''invalid_token'')" for rt
    by (simp add: refresh_defs)
  have 2: "server_says 401 invalid_client_body (refresh_request cfg_a ''old-refresh-token'')
             = Response 401 (Inr invalid_client_body) \<and> (401::int) \<noteq> StatusOK"
    "\<not> (\<exists>status body errResp.
        server_says 401 invalid_client_body (refresh_request cfg_a ''old-refresh-token'')
          = Response status (Inr body) \<and>
        status \<noteq> StatusOK \<and> Unmarshal_ErrorResponse body = Inr errResp \<and>
        (Error errResp = ''invalid_grant'' \<or> Error errResp = ''invalid_token''))"
    "Unmarshal_ErrorResponse invalid_client_body
       = Inr \<lparr>Error = ''invalid_client'', ErrorDescription = ''Client authentication failed''\<rparr>"
    by (simp_all add: refresh_defs)
  have 3: "server_says 403 (Raw ''Forbidden'') (refresh_request cfg_a ''old-refresh-token'')
             = Response 403 (Inr (Raw ''Forbidden'')) \<and> (403::int) \<noteq> StatusOK"
    "\<not> (\<exists>status body errResp.
        server_says 403 (Raw ''Forbidden'') (refresh_request cfg_a ''old-refresh-token'')
          = Response status (Inr body) \<and>
        status \<noteq> StatusOK \<and> Unmarshal_ErrorResponse body = Inr errResp \<and>
        (Error errResp = ''invalid_grant'' \<or> Error errResp = ''invalid_token''))"
    "Unmarshal_ErrorResponse (Raw ''Forbidden'') = Inl SyntaxError"
    by (simp_all add: refresh_defs)
  have a: "fst (refreshAccessToken cfg_a (server_says 400 invalid_grant_body)
            ''refresh-client-a'' (snd (loadTokens cfg_a ?v))) = Inl ErrRefreshTokenExpired"
    using refresh_expired_iff [of cfg_a "server_says 400 invalid_grant_body"
            "''refresh-client-a''" "snd (loadTokens cfg_a ?v)", THEN conjunct1]
          1 [of "''refresh-client-a''"] by blast
  have b: "fst (refreshAccessToken cfg_a (server_says 401 invalid_client_body)
            ''old-refresh-token'' ?w)
             = Inl (ErrServer ''invalid_client'' ''Client authentication failed'')"
    using refresh_expired_iff [of cfg_a "server_says 401 invalid_client_body"
            "''old-refresh-token''" ?w 401 invalid_client_body] 2 by simp
  have c: "fst (refreshAccessToken cfg_a (server_says 403 (Raw ''Forbidden''))
            ''old-refresh-token'' ?w) = Inl (ErrRefreshFailedStatus 403 (Raw ''Forbidden''))"
    using refresh_expired_iff [of cfg_a "server_says 403 (Raw ''Forbidden'')"
            "''old-refresh-token''" ?w 403 "Raw ''Forbidden''"] 3 by simp
  have a': "fst (refreshAccessToken cfg_a (server_says 400 invalid_grant_body)
            (RefreshToken ?existing) (snd (loadTokens cfg_a ?v))) = Inl ErrRefreshTokenExpired"
    using a by simp
  have l: "fst (loadTokens cfg_a ?v) = Inr (Some ?existing)"
    "\<not> clock (snd (loadTokens cfg_a ?v)) < ExpiresAt ?existing"
    using expired_store_loads by simp_all
  have d: "fst (main_startup cfg_a (server_says 400 invalid_grant_body) None ?v)
             = PerformAuthCodeFlow"
    using refresh_expired_iff [where cfg = cfg_a and client = "server_says 400 invalid_grant_body"
            and v = ?v and existing = ?existing and err = ErrRefreshTokenExpired
            and ctxErr = None, THEN conjunct2, THEN conjunct2] l a'
    by simp
  show ?thesis by (rule conjI [OF a conjI [OF b conjI [OF c d]]])
qed




section \<open>Properties of the callback listener\<close>

lemma run_Nil [simp]: "run fn [] s = s" by (simp add: run_def)
lemma run_Cons [simp]: "run fn (e # es) s = run fn es (step fn s e)" by (simp add: run_def)
lemma run_append [simp]: "run fn (es @ es') s = run fn es' (run fn es s)" by (simp add: run_def)

lemma sum_list_update_nat:
  "i < length xs \<Longrightarrow> sum_list (xs[i := (x::nat)]) + xs ! i = sum_list xs + x"
  by (induction xs arbitrary: i) (auto split: nat.splits)

lemma count_pc_set_conn:
  "i < length (conns s) \<Longrightarrow>
     count_pc P (set_conn i c s) + (if P (pc (conns s ! i)) then 1 else 0)
       = count_pc P s + (if P (pc c) then 1 else 0)"
  using sum_list_update_nat [of i "map (\<lambda>c. if P (pc c) then 1 else 0) (conns s)" "if P (pc c) then 1 else 0"]
  by (simp add: count_pc_def set_conn_def map_update)

lemma total_rank_set_conn:
  "i < length (conns s) \<Longrightarrow>
     total_rank (set_conn i c s) + rank (pc (conns s ! i)) = total_rank s + rank (pc c)"
  using sum_list_update_nat [of i "map (\<lambda>c. rank (pc c)) (conns s)" "rank (pc c)"]
  by (simp add: total_rank_def set_conn_def map_update)

lemma set_conn_fields [simp]:
  "once (set_conn i c s) = once s" "exchangeOnce (set_conn i c s) = exchangeOnce s"
  "sent (set_conn i c s) = sent s" "received (set_conn i c s) = received s"
  "resultCh (set_conn i c s) = resultCh s" "exchange_calls (set_conn i c s) = exchange_calls s"
  "main (set_conn i c s) = main s" "conns (set_conn i c s) = (conns s)[i := c]"
  "expectedState (set_conn i c s) = expectedState s"
  "exchangeStorage (set_conn i c s) = exchangeStorage s" "exchangeErr (set_conn i c s) = exchangeErr s"
  by (simp_all add: set_conn_def)

lemma count_pc_cong: "conns s' = conns s \<Longrightarrow> count_pc P s' = count_pc P s"
  by (simp add: count_pc_def)

lemma total_rank_cong: "conns s' = conns s \<Longrightarrow> total_rank s' = total_rank s"
  by (simp add: total_rank_def)

lemma handler_start_pc:
  "(\<exists>r. pc (handler_start e q) = AtSendResult r \<and> response (handler_start e q) \<noteq> None)
   \<or> (\<exists>c. pc (handler_start e q) = AtExchangeOnce c)"
  by (simp add: handler_start_def Let_def)

lemma after_exchange_pc:
  "\<exists>r. pc (after_exchange st er) = AtSendResult r \<and> response (after_exchange st er) \<noteq> None"
  by (simp add: after_exchange_def split: option.splits)

lemma count_pc_set_conn':
  "i < length (conns s) \<Longrightarrow>
     count_pc P (set_conn i c s) =
       (count_pc P s + (if P (pc c) then 1 else 0)) - (if P (pc (conns s ! i)) then 1 else 0)"
  using count_pc_set_conn [of i s P c] by simp

lemma count_pc_pos:
  assumes i: "i < length (conns s)" and p: "P (pc (conns s ! i))"
  shows "0 < count_pc P s"
proof -
  let ?f = "\<lambda>c. if P (pc c) then 1 else (0::nat)"
  have "map ?f (conns s) ! i \<le> sum_list (map ?f (conns s))"
    by (rule elem_le_sum_list) (simp add: i)
  moreover have "map ?f (conns s) ! i = 1" using i p by simp
  ultimately show ?thesis unfolding count_pc_def by linarith
qed

lemma response_set_conn:
  "\<forall>c\<in>set (conns s). page_written (pc c) \<longrightarrow> response c \<noteq> None \<Longrightarrow>
   page_written (pc c') \<longrightarrow> response c' \<noteq> None \<Longrightarrow>
   \<forall>c\<in>set ((conns s)[i := c']). page_written (pc c) \<longrightarrow> response c \<noteq> None"
  using set_update_subset_insert [of "conns s" i c'] by blast

lemma count_pc_fields [simp]:
  "count_pc P (s\<lparr>once := a\<rparr>) = count_pc P s"
  "count_pc P (s\<lparr>exchangeOnce := b\<rparr>) = count_pc P s"
  "count_pc P (s\<lparr>exchange_calls := c\<rparr>) = count_pc P s"
  "count_pc P (s\<lparr>exchangeStorage := d\<rparr>) = count_pc P s"
  "count_pc P (s\<lparr>exchangeErr := e\<rparr>) = count_pc P s"
  "count_pc P (s\<lparr>resultCh := f\<rparr>) = count_pc P s"
  "count_pc P (s\<lparr>sent := g\<rparr>) = count_pc P s"
  "count_pc P (s\<lparr>received := h\<rparr>) = count_pc P s"
  "count_pc P (s\<lparr>main := m\<rparr>) = count_pc P s"
  by (simp_all add: count_pc_def)


lemma consistentD:
  assumes "consistent s"
  shows "count_pc is_InSend s = (if once s = Running then 1 else 0)"
    and "count_pc is_InExchange s = (if exchangeOnce s = Running then 1 else 0)"
    and "length (sent s) = (if once s = Done then 1 else 0)"
    and "length (exchange_calls s) = (if exchangeOnce s = Fresh then 0 else 1)"
    and "sent s = received s @ resultCh s"
    and "main s = Waiting \<longrightarrow> received s = []"
    and "\<forall>c\<in>set (conns s). page_written (pc c) \<longrightarrow> response c \<noteq> None"
  using assms unfolding consistent_def by blast+

lemma consistentI:
  assumes "count_pc is_InSend s = (if once s = Running then 1 else 0)"
    and "count_pc is_InExchange s = (if exchangeOnce s = Running then 1 else 0)"
    and "length (sent s) = (if once s = Done then 1 else 0)"
    and "length (exchange_calls s) = (if exchangeOnce s = Fresh then 0 else 1)"
    and "sent s = received s @ resultCh s"
    and "main s = Waiting \<longrightarrow> received s = []"
    and "\<forall>c\<in>set (conns s). page_written (pc c) \<longrightarrow> response c \<noteq> None"
  shows "consistent s"
  using assms unfolding consistent_def by blast

text \<open>
  The general step: handler i moves from its place to the place of c, and the shared
  fields change from those of s to those of t (t has the handlers of s).
\<close>

lemma consistent_move:
  assumes c: "consistent s" and i: "i < length (conns s)" and t: "conns t = conns s"
    and send: "(if once t = Running then 1 else 0) + (if is_InSend (pc (conns s ! i)) then 1 else 0)
               = (if once s = Running then (1::nat) else 0) + (if is_InSend (pc c') then 1 else 0)"
    and exch: "(if exchangeOnce t = Running then 1 else 0)
                 + (if is_InExchange (pc (conns s ! i)) then 1 else 0)
               = (if exchangeOnce s = Running then (1::nat) else 0)
                 + (if is_InExchange (pc c') then 1 else 0)"
    and sent: "length (sent t) = (if once t = Done then 1 else 0)"
    and calls: "length (exchange_calls t) = (if exchangeOnce t = Fresh then 0 else 1)"
    and chan: "sent t = received t @ resultCh t"
    and main: "main t = Waiting \<longrightarrow> received t = []"
    and page: "page_written (pc c') \<longrightarrow> response c' \<noteq> None"
  shows "consistent (set_conn i c' t)"
proof (rule consistentI)
  have i': "i < length (conns t)" using i t by simp
  have cs: "count_pc is_InSend t = count_pc is_InSend s"
    "count_pc is_InExchange t = count_pc is_InExchange s"
    using t by (simp_all add: count_pc_def)
  show "count_pc is_InSend (set_conn i c' t) = (if once (set_conn i c' t) = Running then 1 else 0)"
    using count_pc_set_conn [OF i', of is_InSend c'] cs(1) consistentD(1) [OF c] send t
    by (simp only: set_conn_fields; linarith)
  show "count_pc is_InExchange (set_conn i c' t)
          = (if exchangeOnce (set_conn i c' t) = Running then 1 else 0)"
    using count_pc_set_conn [OF i', of is_InExchange c'] cs(2) consistentD(2) [OF c] exch t
    by (simp only: set_conn_fields; linarith)
  show "length (sent (set_conn i c' t)) = (if once (set_conn i c' t) = Done then 1 else 0)"
    using sent by (simp only: set_conn_fields)
  show "length (exchange_calls (set_conn i c' t))
          = (if exchangeOnce (set_conn i c' t) = Fresh then 0 else 1)"
    using calls by (simp only: set_conn_fields)
  show "sent (set_conn i c' t) = received (set_conn i c' t) @ resultCh (set_conn i c' t)"
    using chan by (simp only: set_conn_fields)
  show "main (set_conn i c' t) = Waiting \<longrightarrow> received (set_conn i c' t) = []"
    using main by (simp only: set_conn_fields)
  show "\<forall>c\<in>set (conns (set_conn i c' t)). page_written (pc c) \<longrightarrow> response c \<noteq> None"
    using consistentD(7) [OF c] page set_update_subset_insert [of "conns s" i c'] t
    unfolding set_conn_fields by (simp only:) blast
qed

lemma consistent_run_handler:
  assumes c: "consistent s" and i: "i < length (conns s)"
  shows "consistent (run_handler fn i s)"
proof -
  note D = consistentD [OF c]
  show ?thesis
  proof (cases "pc (conns s ! i)")
    case (Arrived q)
    have "consistent (set_conn i (handler_start (expectedState s) q) s)"
      using handler_start_pc [of "expectedState s" q] Arrived
      by (intro consistent_move [OF c i]) (use D in auto)
    then show ?thesis using Arrived by (simp add: run_handler_def)
  next
    case (AtExchangeOnce code)
    show ?thesis
    proof (cases "exchangeOnce s")
      case Fresh
      have "consistent (set_conn i ((conns s ! i)\<lparr>pc := InExchange code\<rparr>)
              (s\<lparr>exchangeOnce := Running, exchange_calls := exchange_calls s @ [(i, code)]\<rparr>))"
        using AtExchangeOnce Fresh
        by (intro consistent_move [OF c i]) (use D in auto)
      then show ?thesis using AtExchangeOnce Fresh by (simp add: run_handler_def)
    next
      case Running
      then show ?thesis using c AtExchangeOnce by (simp add: run_handler_def)
    next
      case Done
      have "consistent (set_conn i ((conns s ! i)\<lparr>pc := AfterExchange\<rparr>) s)"
        using AtExchangeOnce Done
        by (intro consistent_move [OF c i]) (use D in auto)
      then show ?thesis using AtExchangeOnce Done by (simp add: run_handler_def)
    qed
  next
    case (InExchange code)
    have run: "exchangeOnce s = Running"
      using count_pc_pos [OF i, of is_InExchange] InExchange D(2) by (auto split: if_splits)
    have "consistent (set_conn i ((conns s ! i)\<lparr>pc := AfterExchange\<rparr>)
            (s\<lparr>exchangeStorage := fst (fn code), exchangeErr := snd (fn code),
               exchangeOnce := Done\<rparr>))"
      using InExchange run
      by (intro consistent_move [OF c i]) (use D in auto)
    then show ?thesis using InExchange by (simp add: run_handler_def)
  next
    case AfterExchange
    have "consistent (set_conn i (after_exchange (exchangeStorage s) (exchangeErr s)) s)"
      using after_exchange_pc [of "exchangeStorage s" "exchangeErr s"] AfterExchange
      by (intro consistent_move [OF c i]) (use D in auto)
    then show ?thesis using AfterExchange by (simp add: run_handler_def)
  next
    case (AtSendResult r)
    have resp: "response (conns s ! i) \<noteq> None"
      using D(7) i AtSendResult by (metis nth_mem page_written.simps(1))
    show ?thesis
    proof (cases "once s")
      case Fresh
      have "consistent (set_conn i ((conns s ! i)\<lparr>pc := InSend r\<rparr>) (s\<lparr>once := Running\<rparr>))"
        using AtSendResult Fresh resp
        by (intro consistent_move [OF c i]) (use D in auto)
      then show ?thesis using AtSendResult Fresh by (simp add: run_handler_def)
    next
      case Running
      then show ?thesis using c AtSendResult by (simp add: run_handler_def)
    next
      case Done
      have "consistent (set_conn i ((conns s ! i)\<lparr>pc := Finished\<rparr>) s)"
        using AtSendResult Done resp
        by (intro consistent_move [OF c i]) (use D in auto)
      then show ?thesis using AtSendResult Done by (simp add: run_handler_def)
    qed
  next
    case (InSend r)
    have resp: "response (conns s ! i) \<noteq> None"
      using D(7) i InSend by (metis nth_mem page_written.simps(2))
    have run: "once s = Running"
      using count_pc_pos [OF i, of is_InSend] InSend D(1) by (auto split: if_splits)
    then have empty: "sent s = []" "resultCh s = []" "received s = []"
      using D(3) D(5) by auto
    have "consistent (set_conn i ((conns s ! i)\<lparr>pc := Finished\<rparr>)
            (s\<lparr>resultCh := resultCh s @ [r], sent := sent s @ [r], once := Done\<rparr>))"
      using InSend run empty resp
      by (intro consistent_move [OF c i]) (use D in auto)
    then show ?thesis using InSend empty by (simp add: run_handler_def)
  next
    case Finished
    then show ?thesis using c by (simp add: run_handler_def)
  qed
qed

lemma consistent_listening: "consistent (listening st)"
  by (simp add: consistent_def listening_def count_pc_def)

lemma consistent_step:
  assumes c: "consistent s"
  shows "consistent (step fn s e)"
proof -
  note D = consistentD [OF c]
  show ?thesis
  proof (cases e)
    case (Request q)
    show ?thesis
      unfolding Request step_def
      by (rule consistentI) (use D in \<open>auto simp: count_pc_def\<close>)
  next
    case (Run i)
    then show ?thesis using c consistent_run_handler by (simp add: step_def)
  next
    case Receive
    show ?thesis
    proof (cases "main s = Waiting \<and> resultCh s \<noteq> []")
      case True
      then obtain r rest where r: "resultCh s = r # rest" by (cases "resultCh s") auto
      have rec: "received s = []" using True D(6) by simp
      have "length (sent s) \<le> 1" using D(3) by (simp split: if_splits)
      then have rest: "rest = []" using D(5) r rec by simp
      have "step fn s e = s\<lparr>resultCh := rest, received := received s @ [r],
                 main := Returned (result_value r)\<rparr>"
        using True r Receive by (simp add: step_def)
      moreover have "consistent (s\<lparr>resultCh := rest, received := received s @ [r],
                 main := Returned (result_value r)\<rparr>)"
        by (rule consistentI) (use D r rec rest in \<open>auto simp: count_pc_def\<close>)
      ultimately show ?thesis by simp
    next
      case False
      then have "step fn s e = s"
        using Receive by (auto simp: step_def split: main_state.splits list.splits)
      then show ?thesis using c by simp
    qed
  next
    case (Cancel err)
    show ?thesis
    proof (cases "main s")
      case Waiting
      have "consistent (s\<lparr>main := Returned (Inl (ErrContext err))\<rparr>)"
        by (rule consistentI) (use D in \<open>auto simp: count_pc_def\<close>)
      then show ?thesis using Cancel Waiting by (simp add: step_def)
    next
      case (Returned x)
      then show ?thesis using c Cancel by (simp add: step_def)
    qed
  next
    case Timeout
    show ?thesis
    proof (cases "main s")
      case Waiting
      have "consistent (s\<lparr>main := Returned (Inl (ErrCallbackTimeout callbackTimeout))\<rparr>)"
        by (rule consistentI) (use D in \<open>auto simp: count_pc_def\<close>)
      then show ?thesis using Timeout Waiting by (simp add: step_def)
    next
      case (Returned x)
      then show ?thesis using c Timeout by (simp add: step_def)
    qed
  qed
qed

lemma consistent_run: "consistent s \<Longrightarrow> consistent (run fn sched s)"
  by (induction sched arbitrary: s) (simp_all add: consistent_step)

lemma consistent_bounds:
  assumes "consistent s"
  shows "length (sent s) \<le> 1" "length (received s) \<le> 1" "length (exchange_calls s) \<le> 1"
proof -
  note D = consistentD [OF assms]
  show 1: "length (sent s) \<le> 1" using D(3) by (simp split: if_splits)
  have "length (received s) \<le> length (sent s)" using D(5) by simp
  then show "length (received s) \<le> 1" using 1 by linarith
  show "length (exchange_calls s) \<le> 1" using D(4) by (simp split: if_splits)
qed

text \<open>Progress: every step of a handler that moves lowers the total rank.\<close>

lemma total_rank_fields [simp]:
  "total_rank (s\<lparr>once := a\<rparr>) = total_rank s"
  "total_rank (s\<lparr>exchangeOnce := b\<rparr>) = total_rank s"
  "total_rank (s\<lparr>exchange_calls := c\<rparr>) = total_rank s"
  "total_rank (s\<lparr>exchangeStorage := d\<rparr>) = total_rank s"
  "total_rank (s\<lparr>exchangeErr := e\<rparr>) = total_rank s"
  "total_rank (s\<lparr>resultCh := f\<rparr>) = total_rank s"
  "total_rank (s\<lparr>sent := g\<rparr>) = total_rank s"
  by (simp_all add: total_rank_def)

lemma length_conns_run_handler [simp]: "length (conns (run_handler fn i s)) = length (conns s)"
  by (simp add: run_handler_def split: handler_pc.splits once_state.splits)

lemma rank_move:
  assumes i: "i < length (conns s)" and t: "conns t = conns s"
    and r: "rank (pc c) < rank (pc (conns s ! i))"
  shows "total_rank (set_conn i c t) < total_rank s \<and>
         rank (pc (conns (set_conn i c t) ! i)) < rank (pc (conns s ! i))"
proof -
  have "i < length (conns t)" using i t by simp
  from total_rank_set_conn [OF this, of c] t have
    "total_rank (set_conn i c t) + rank (pc (conns s ! i)) = total_rank s + rank (pc c)"
    by (simp add: total_rank_def)
  then show ?thesis using r i t by simp
qed

text \<open>A handler that moves gets closer to its end; one that waits leaves the state as it is.\<close>

lemma run_handler_rank:
  assumes i: "i < length (conns s)"
  shows "run_handler fn i s = s \<or>
         (total_rank (run_handler fn i s) < total_rank s \<and>
          rank (pc (conns (run_handler fn i s) ! i)) < rank (pc (conns s ! i)))"
proof -
  note move = rank_move [OF i]
  show ?thesis
  proof (cases "pc (conns s ! i)")
    case (Arrived q)
    have "rank (pc (handler_start (expectedState s) q)) < 6"
      using handler_start_pc [of "expectedState s" q] by auto
    then show ?thesis using Arrived move [of s] by (simp add: run_handler_def)
  next
    case (AtExchangeOnce code)
    then show ?thesis
      using move [of "s\<lparr>exchangeOnce := Running, exchange_calls := exchange_calls s @ [(i, code)]\<rparr>"
                     "(conns s ! i)\<lparr>pc := InExchange code\<rparr>"]
            move [of s "(conns s ! i)\<lparr>pc := AfterExchange\<rparr>"]
      by (cases "exchangeOnce s") (simp_all add: run_handler_def)
  next
    case (InExchange code)
    then show ?thesis
      using move [of "s\<lparr>exchangeStorage := fst (fn code), exchangeErr := snd (fn code),
               exchangeOnce := Done\<rparr>" "(conns s ! i)\<lparr>pc := AfterExchange\<rparr>"]
      by (simp add: run_handler_def)
  next
    case AfterExchange
    have "rank (pc (after_exchange (exchangeStorage s) (exchangeErr s))) < 3"
      using after_exchange_pc [of "exchangeStorage s" "exchangeErr s"] by auto
    then show ?thesis using AfterExchange move [of s] by (simp add: run_handler_def)
  next
    case (AtSendResult r)
    then show ?thesis
      using move [of "s\<lparr>once := Running\<rparr>" "(conns s ! i)\<lparr>pc := InSend r\<rparr>"]
            move [of s "(conns s ! i)\<lparr>pc := Finished\<rparr>"]
      by (cases "once s") (simp_all add: run_handler_def)
  next
    case (InSend r)
    show ?thesis
    proof (cases "resultCh s = []")
      case True
      then show ?thesis
        using InSend move [of "s\<lparr>resultCh := [r], sent := sent s @ [r], once := Done\<rparr>"
                       "(conns s ! i)\<lparr>pc := Finished\<rparr>"]
        by (simp add: run_handler_def)
    next
      case False
      then show ?thesis using InSend by (simp add: run_handler_def)
    qed
  next
    case Finished
    then show ?thesis by (simp add: run_handler_def)
  qed
qed

lemma sum_list_pos_elem:
  "0 < sum_list (map f xs) \<Longrightarrow> \<exists>x\<in>set xs. 0 < (f x :: nat)"
  by (induction xs) auto

lemma count_pc_witness:
  assumes "0 < count_pc P s"
  shows "\<exists>k<length (conns s). P (pc (conns s ! k))"
proof -
  from assms sum_list_pos_elem [of "\<lambda>c. if P (pc c) then 1 else 0" "conns s"]
  obtain c where "c \<in> set (conns s)" "P (pc c)"
    by (auto simp: count_pc_def split: if_splits)
  then show ?thesis by (auto simp: in_set_conv_nth)
qed

lemma total_rank_witness:
  assumes "0 < total_rank s"
  shows "\<exists>k<length (conns s). pc (conns s ! k) \<noteq> Finished"
proof -
  from assms sum_list_pos_elem [of "\<lambda>c. rank (pc c)" "conns s"]
  obtain c where "c \<in> set (conns s)" "0 < rank (pc c)"
    by (auto simp: total_rank_def)
  then have "c \<in> set (conns s)" "pc c \<noteq> Finished" by auto
  then show ?thesis by (auto simp: in_set_conv_nth)
qed

lemma total_rank_zero:
  "total_rank s = 0 \<Longrightarrow> c \<in> set (conns s) \<Longrightarrow> pc c = Finished"
  by (cases "pc c") (auto simp: total_rank_def)

lemma total_rank_bound: "total_rank s \<le> 6 * length (conns s)"
proof -
  have "\<And>p. rank p \<le> 6" subgoal for p by (cases p) simp_all done
  then have "sum_list (map (\<lambda>c. rank (pc c)) xs) \<le> 6 * length xs" for xs :: "conn list"
    by (induction xs) (simp_all add: add_mono)
  then show ?thesis by (simp add: total_rank_def)
qed

lemma run_handler_moves:
  assumes i: "i < length (conns s)" and m: "can_move s (pc (conns s ! i))"
  shows "run_handler fn i s \<noteq> s"
proof -
  from run_handler_rank [OF i, of fn] have
    "run_handler fn i s = s \<or> total_rank (run_handler fn i s) < total_rank s" by blast
  moreover have "pc (conns (run_handler fn i s) ! i) \<noteq> pc (conns s ! i)"
  proof (cases "pc (conns s ! i)")
    case (Arrived q)
    then show ?thesis
      using i handler_start_pc [of "expectedState s" q] by (auto simp: run_handler_def)
  next
    case (AtExchangeOnce c)
    then show ?thesis using i m by (cases "exchangeOnce s") (auto simp: run_handler_def)
  next
    case (InExchange c)
    then show ?thesis using i by (auto simp: run_handler_def)
  next
    case AfterExchange
    then show ?thesis
      using i after_exchange_pc [of "exchangeStorage s" "exchangeErr s"]
      by (auto simp: run_handler_def)
  next
    case (AtSendResult r)
    then show ?thesis using i m by (cases "once s") (auto simp: run_handler_def)
  next
    case (InSend r)
    then show ?thesis using i m by (auto simp: run_handler_def)
  next
    case Finished
    then show ?thesis using m by simp
  qed
  ultimately show ?thesis by auto
qed

lemma enabled:
  assumes c: "consistent s" and r: "0 < total_rank s"
  shows "\<exists>i<length (conns s). run_handler fn i s \<noteq> s"
proof -
  note D = consistentD [OF c]
  show ?thesis
  proof (cases "once s = Running")
    case True
    then obtain k where k: "k < length (conns s)" "is_InSend (pc (conns s ! k))"
      using D(1) count_pc_witness [of is_InSend s] by auto
    have "resultCh s = []" using True D(3) D(5) by simp
    then have "can_move s (pc (conns s ! k))" using k(2) by (cases "pc (conns s ! k)") auto
    then show ?thesis using run_handler_moves k(1) by blast
  next
    case False
    note send = False
    show ?thesis
    proof (cases "exchangeOnce s = Running")
      case True
      then obtain k where k: "k < length (conns s)" "is_InExchange (pc (conns s ! k))"
        using D(2) count_pc_witness [of is_InExchange s] by auto
      then have "can_move s (pc (conns s ! k))" by (cases "pc (conns s ! k)") auto
      then show ?thesis using run_handler_moves k(1) by blast
    next
      case False
      from total_rank_witness [OF r] obtain k where
        k: "k < length (conns s)" "pc (conns s ! k) \<noteq> Finished" by blast
      have "\<not> is_InSend (pc (conns s ! k))"
        using count_pc_pos [OF k(1), of is_InSend] D(1) send by auto
      then have "can_move s (pc (conns s ! k))"
        using k(2) send False by (cases "pc (conns s ! k)") auto
      then show ?thesis using run_handler_moves k(1) by blast
    qed
  qed
qed

lemma step_Run: "step fn s (Run i) = (if i < length (conns s) then run_handler fn i s else s)"
  by (simp add: step_def)

lemma step_Run_rank:
  "step fn s (Run i) = s \<or> total_rank (step fn s (Run i)) < total_rank s"
  using run_handler_rank [of i s fn] by (auto simp: step_Run)

lemma length_conns_step_Run [simp]: "length (conns (step fn s (Run i))) = length (conns s)"
  by (simp add: step_Run)

lemma run_turns:
  "total_rank (run fn (map Run is) s) \<le> total_rank s \<and>
   length (conns (run fn (map Run is) s)) = length (conns s) \<and>
   (total_rank (run fn (map Run is) s) = total_rank s \<longrightarrow> (\<forall>i\<in>set is. step fn s (Run i) = s))"
proof (induction "is" arbitrary: s)
  case Nil
  then show ?case by simp
next
  case (Cons i "is")
  let ?s1 = "step fn s (Run i)"
  from Cons [of ?s1] have ih:
    "total_rank (run fn (map Run is) ?s1) \<le> total_rank ?s1"
    "length (conns (run fn (map Run is) ?s1)) = length (conns ?s1)"
    "total_rank (run fn (map Run is) ?s1) = total_rank ?s1 \<longrightarrow> (\<forall>i\<in>set is. step fn ?s1 (Run i) = ?s1)"
    by blast+
  from step_Run_rank [of fn s i] show ?case
  proof
    assume same: "?s1 = s"
    then show ?thesis using ih by simp
  next
    assume less: "total_rank ?s1 < total_rank s"
    then show ?thesis using ih by simp
  qed
qed

lemma round_decreases:
  assumes c: "consistent s" and r: "0 < total_rank s"
  shows "total_rank (run fn (round s) s) < total_rank s"
proof -
  from enabled [OF c r, of fn] obtain i where
    i: "i < length (conns s)" "run_handler fn i s \<noteq> s" by blast
  then have "step fn s (Run i) \<noteq> s" by (simp add: step_Run)
  moreover have "i \<in> set [0..<length (conns s)]" using i(1) by simp
  ultimately have "total_rank (run fn (round s) s) \<noteq> total_rank s"
    using run_turns [of fn "[0..<length (conns s)]" s] unfolding round_def by blast
  then show ?thesis
    using run_turns [of fn "[0..<length (conns s)]" s] unfolding round_def by linarith
qed

lemma round_same: "length (conns s') = length (conns s) \<Longrightarrow> round s' = round s"
  by (simp add: round_def)

lemma rounds_Suc: "rounds (Suc n) s = round s @ rounds n s"
  by (simp add: rounds_def)

lemma rounds_same: "length (conns s') = length (conns s) \<Longrightarrow> rounds n s' = rounds n s"
  by (simp add: rounds_def round_def)

lemma rounds_finish:
  "consistent s \<Longrightarrow> total_rank s \<le> n \<Longrightarrow> total_rank (run fn (rounds n s) s) = 0"
proof (induction n arbitrary: s)
  case 0
  then show ?case by (simp add: rounds_def)
next
  case (Suc n)
  let ?s1 = "run fn (round s) s"
  have c1: "consistent ?s1" using Suc.prems(1) by (rule consistent_run)
  have len: "length (conns ?s1) = length (conns s)"
    using run_turns [of fn "[0..<length (conns s)]" s] by (simp add: round_def)
  have le: "total_rank ?s1 \<le> total_rank s"
    using run_turns [of fn "[0..<length (conns s)]" s] by (simp add: round_def)
  have "total_rank ?s1 \<le> n"
  proof (cases "total_rank s = 0")
    case True
    then show ?thesis using le by simp
  next
    case False
    then have "total_rank ?s1 < total_rank s" using round_decreases [OF Suc.prems(1)] by simp
    then show ?thesis using Suc.prems(2) by simp
  qed
  from Suc.IH [OF c1 this] have "total_rank (run fn (rounds n ?s1) ?s1) = 0" .
  then show ?case using rounds_same [OF len, of n] by (simp add: rounds_Suc)
qed

lemma rounds_length: "length (conns (run fn (rounds n s) s)) = length (conns s)"
proof -
  have "rounds n s = map Run (concat (replicate n [0..<length (conns s)]))"
    by (simp add: rounds_def round_def map_concat)
  then show ?thesis using run_turns [of fn "concat (replicate n [0..<length (conns s)])" s] by simp
qed


lemma insend_not_blocked:
  assumes c: "consistent s" and i: "i < length (conns s)" and p: "pc (conns s ! i) = InSend r"
  shows "pc (conns (step fn s (Run i)) ! i) = Finished"
proof -
  note D = consistentD [OF c]
  have "once s = Running"
    using count_pc_pos [OF i, of is_InSend] p D(1) by (auto split: if_splits)
  then have "resultCh s = []" using D(3) D(5) by simp
  then show ?thesis using i p by (simp add: step_Run run_handler_def)
qed

lemma late_result_discarded:
  assumes i: "i < length (conns s)" and p: "pc (conns s ! i) = AtSendResult r"
    and d: "once s = Done"
  shows "pc (conns (step fn s (Run i)) ! i) = Finished \<and> sent (step fn s (Run i)) = sent s
         \<and> resultCh (step fn s (Run i)) = resultCh s"
  using i p d by (simp add: step_Run run_handler_def)

text \<open>
  C1. Whatever requests arrive and however the handlers, the caller, the cancellation and
  the timeout are interleaved: at most one result is ever sent on the channel, at most
  one is received by the caller, and the exchange function is called at most once. A
  handler at the channel send is never blocked, and a handler that calls \<open>sendResult\<close>
  after the first result returns at once with nothing sent. From every state that is
  reached, giving every handler its turn six times for each request brings every handler
  to its return, its page written: no request hangs.
\<close>

theorem single_delivery:
  "length (sent (run fn sched (listening st))) \<le> 1
   \<and> length (received (run fn sched (listening st))) \<le> 1
   \<and> length (exchange_calls (run fn sched (listening st))) \<le> 1
   \<and> (i < length (conns (run fn sched (listening st))) \<and>
       pc (conns (run fn sched (listening st)) ! i) = InSend r \<longrightarrow>
         pc (conns (step fn (run fn sched (listening st)) (Run i)) ! i) = Finished)
   \<and> (i < length (conns (run fn sched (listening st))) \<and>
       pc (conns (run fn sched (listening st)) ! i) = AtSendResult r \<and>
       once (run fn sched (listening st)) = Done \<longrightarrow>
         pc (conns (step fn (run fn sched (listening st)) (Run i)) ! i) = Finished \<and>
         sent (step fn (run fn sched (listening st)) (Run i)) = sent (run fn sched (listening st)) \<and>
         resultCh (step fn (run fn sched (listening st)) (Run i))
           = resultCh (run fn sched (listening st)))
   \<and> (\<forall>c\<in>set (conns (run fn (sched @ rounds (6 * length (conns (run fn sched (listening st))))
                                      (run fn sched (listening st))) (listening st))).
         pc c = Finished \<and> response c \<noteq> None)"
proof -
  let ?s = "run fn sched (listening st)"
  let ?n = "6 * length (conns ?s)"
  have c: "consistent ?s" using consistent_listening by (rule consistent_run)
  have c': "consistent (run fn (rounds ?n ?s) ?s)" using c by (rule consistent_run)
  have z: "total_rank (run fn (rounds ?n ?s) ?s) = 0"
    using rounds_finish [OF c total_rank_bound] .
  have fin: "\<forall>c\<in>set (conns (run fn (sched @ rounds ?n ?s) (listening st))).
               pc c = Finished \<and> response c \<noteq> None"
  proof
    fix x assume "x \<in> set (conns (run fn (sched @ rounds ?n ?s) (listening st)))"
    then have x: "x \<in> set (conns (run fn (rounds ?n ?s) ?s))" by simp
    from total_rank_zero [OF z x] have "pc x = Finished" .
    moreover have "response x \<noteq> None" using consistentD(7) [OF c'] x calculation by auto
    ultimately show "pc x = Finished \<and> response x \<noteq> None" by simp
  qed
  have send: "i < length (conns ?s) \<and> pc (conns ?s ! i) = InSend r \<longrightarrow>
         pc (conns (step fn ?s (Run i)) ! i) = Finished"
    using insend_not_blocked [OF c] by blast
  have late: "i < length (conns ?s) \<and> pc (conns ?s ! i) = AtSendResult r \<and> once ?s = Done \<longrightarrow>
         pc (conns (step fn ?s (Run i)) ! i) = Finished \<and>
         sent (step fn ?s (Run i)) = sent ?s \<and> resultCh (step fn ?s (Run i)) = resultCh ?s"
    using late_result_discarded [of i ?s r fn] by blast
  note b = consistent_bounds [OF c]
  show ?thesis
    by (rule conjI [OF b(1) conjI [OF b(2) conjI [OF b(3) conjI [OF send conjI [OF late fin]]]]])
qed

text \<open>
  The double callback of the program's test: two requests with the right state and a
  code, their handlers interleaved, the caller receiving in between. One result is sent
  and received, the exchange function runs once, for the first handler, and both handlers
  return with the success page.
\<close>

lemma double_callback_state:
  "sent (run mockExchangeFn double_callback (listening ''test-state-double''))
     = [\<lparr>cb_Storage = fst (mockExchangeFn ''mycode''), cb_Error = '''', cb_Desc = ''''\<rparr>]"
  "1 < length (conns (run mockExchangeFn double_callback (listening ''test-state-double'')))
   \<and> pc (conns (run mockExchangeFn double_callback (listening ''test-state-double'')) ! 1)
     = AtSendResult \<lparr>cb_Storage = fst (mockExchangeFn ''mycode''), cb_Error = '''', cb_Desc = ''''\<rparr>
   \<and> once (run mockExchangeFn double_callback (listening ''test-state-double'')) = Done"
  by code_simp+

theorem single_delivery_witness:
  "sent (run mockExchangeFn double_callback (listening ''test-state-double''))
     = [\<lparr>cb_Storage = fst (mockExchangeFn ''mycode''), cb_Error = '''', cb_Desc = ''''\<rparr>]
   \<and> length (received (run mockExchangeFn double_callback (listening ''test-state-double''))) \<le> 1
   \<and> length (exchange_calls (run mockExchangeFn double_callback (listening ''test-state-double''))) \<le> 1
   \<and> pc (conns (step mockExchangeFn
            (run mockExchangeFn double_callback (listening ''test-state-double'')) (Run 1)) ! 1)
       = Finished
   \<and> sent (step mockExchangeFn
            (run mockExchangeFn double_callback (listening ''test-state-double'')) (Run 1))
       = sent (run mockExchangeFn double_callback (listening ''test-state-double''))"
proof -
  let ?s = "run mockExchangeFn double_callback (listening ''test-state-double'')"
  let ?r = "\<lparr>cb_Storage = fst (mockExchangeFn ''mycode''), cb_Error = '''', cb_Desc = ''''\<rparr>"
  note t = single_delivery [of mockExchangeFn double_callback "''test-state-double''" 1 ?r]
  note late = t [THEN conjunct2, THEN conjunct2, THEN conjunct2, THEN conjunct2, THEN conjunct1,
                 THEN mp, OF double_callback_state(2)]
  show ?thesis
    by (rule conjI [OF double_callback_state(1)
          conjI [OF t [THEN conjunct2, THEN conjunct1]
            conjI [OF t [THEN conjunct2, THEN conjunct2, THEN conjunct1]
              conjI [OF late [THEN conjunct1] late [THEN conjunct2, THEN conjunct1]]]]])
qed


lemma handler_start_cases:
  "(Get q ''error'' \<noteq> '''' \<longrightarrow>
      handler_start e q =
        \<lparr>pc = AtSendResult \<lparr>cb_Storage = None, cb_Error = Get q ''error'',
                            cb_Desc = Get q ''error_description''\<rparr>,
         response = Some (writeCallbackPage False (Get q ''error'')
                            (Get q ''error_description''))\<rparr>)
   \<and> (Get q ''error'' = '''' \<and> Get q ''state'' \<noteq> e \<longrightarrow>
      handler_start e q =
        \<lparr>pc = AtSendResult \<lparr>cb_Storage = None, cb_Error = ''state_mismatch'',
                            cb_Desc = ''state parameter mismatch''\<rparr>,
         response = Some (writeCallbackPage False ''state_mismatch''
                            ''State parameter does not match. Possible CSRF attack.'')\<rparr>)
   \<and> (Get q ''error'' = '''' \<and> Get q ''state'' = e \<and> Get q ''code'' = '''' \<longrightarrow>
      handler_start e q =
        \<lparr>pc = AtSendResult \<lparr>cb_Storage = None, cb_Error = ''missing_code'',
                            cb_Desc = ''code parameter missing''\<rparr>,
         response = Some (writeCallbackPage False ''missing_code''
                            ''No authorization code in callback.'')\<rparr>)
   \<and> (Get q ''error'' = '''' \<and> Get q ''state'' = e \<and> Get q ''code'' \<noteq> '''' \<longrightarrow>
      handler_start e q = \<lparr>pc = AtExchangeOnce (Get q ''code''), response = None\<rparr>)"
  by (simp add: handler_start_def Let_def)

lemma step_Arrived:
  "i < length (conns s) \<Longrightarrow> pc (conns s ! i) = Arrived q \<Longrightarrow>
     conns (step fn s (Run i)) ! i = handler_start (expectedState s) q
     \<and> exchange_calls (step fn s (Run i)) = exchange_calls s"
  by (simp add: step_Run run_handler_def)

lemma step_AtExchangeOnce:
  "i < length (conns s) \<Longrightarrow> pc (conns s ! i) = AtExchangeOnce code \<Longrightarrow>
     exchange_calls (step fn s (Run i))
       = (if exchangeOnce s = Fresh then exchange_calls s @ [(i, code)] else exchange_calls s)"
  by (cases "exchangeOnce s") (simp_all add: step_Run run_handler_def)

text \<open>A handler with no exchange ahead stays so, and no step adds a call of its own.\<close>

lemma no_exchange_ahead_start:
  "no_exchange_ahead e (Arrived q) \<Longrightarrow> no_exchange_ahead e (pc (handler_start e q))"
  by (auto simp: handler_start_def Let_def)

lemma no_exchange_ahead_after: "no_exchange_ahead e (pc (after_exchange st er))"
  by (simp add: after_exchange_def split: option.splits)

lemma expectedState_run_handler [simp]: "expectedState (run_handler fn j s) = expectedState s"
  by (simp add: run_handler_def split: handler_pc.splits once_state.splits)

lemma no_exchange_ahead_run_handler:
  assumes i: "i < length (conns s)" and j: "j < length (conns s)"
    and n: "no_exchange_ahead (expectedState s) (pc (conns s ! i))"
  shows "no_exchange_ahead (expectedState s) (pc (conns (run_handler fn j s) ! i))
         \<and> calls_by i (run_handler fn j s) = calls_by i s"
proof (cases "j = i")
  case True
  show ?thesis
  proof (cases "pc (conns s ! i)")
    case (Arrived q)
    then show ?thesis
      using i n True no_exchange_ahead_start [of "expectedState s" q]
      by (simp add: run_handler_def calls_by_def)
  next
    case (AtExchangeOnce c)
    then show ?thesis using n by simp
  next
    case (InExchange c)
    then show ?thesis using n by simp
  next
    case AfterExchange
    then show ?thesis
      using i True no_exchange_ahead_after [of "expectedState s" "exchangeStorage s" "exchangeErr s"]
      by (simp add: run_handler_def calls_by_def)
  next
    case (AtSendResult r)
    then show ?thesis
      using i True by (cases "once s") (simp_all add: run_handler_def calls_by_def)
  next
    case (InSend r)
    then show ?thesis using i True n by (simp add: run_handler_def calls_by_def)
  next
    case Finished
    then show ?thesis using n True by (simp add: run_handler_def)
  qed
next
  case False
  show ?thesis
  proof (cases "pc (conns s ! j)")
    case (AtExchangeOnce c)
    then show ?thesis
      using i j n False by (cases "exchangeOnce s") (simp_all add: run_handler_def calls_by_def)
  next
    case (AtSendResult r)
    then show ?thesis
      using i j n False by (cases "once s") (simp_all add: run_handler_def calls_by_def)
  qed (use i j n False in \<open>simp_all add: run_handler_def calls_by_def\<close>)
qed

lemma no_exchange_ahead_step:
  assumes i: "i < length (conns s)"
    and n: "no_exchange_ahead (expectedState s) (pc (conns s ! i))"
  shows "i < length (conns (step fn s ev))
         \<and> no_exchange_ahead (expectedState (step fn s ev)) (pc (conns (step fn s ev) ! i))
         \<and> calls_by i (step fn s ev) = calls_by i s"
proof (cases ev)
  case (Request q)
  then show ?thesis using i n by (simp add: step_def calls_by_def nth_append)
next
  case (Run j)
  then show ?thesis
    using i n no_exchange_ahead_run_handler [OF i _ n, of j fn] by (simp add: step_Run)
next
  case Receive
  then show ?thesis
    using i n by (simp add: step_def calls_by_def split: main_state.splits list.splits)
next
  case (Cancel e)
  then show ?thesis using i n by (simp add: step_def calls_by_def split: main_state.splits)
next
  case Timeout
  then show ?thesis using i n by (simp add: step_def calls_by_def split: main_state.splits)
qed

lemma no_exchange_ahead_run:
  "i < length (conns s) \<Longrightarrow> no_exchange_ahead (expectedState s) (pc (conns s ! i)) \<Longrightarrow>
     calls_by i (run fn sched s) = calls_by i s"
proof (induction sched arbitrary: s)
  case Nil
  then show ?case by simp
next
  case (Cons ev sched)
  from no_exchange_ahead_step [OF Cons.prems, of fn ev] Cons.IH [of "step fn s ev"]
  show ?case by simp
qed

text \<open>
  C2, as the code has it. The handler puts a request through three checks in this order.
  A non-empty \<open>error\<close> parameter gives the failure with that error and its description.
  Otherwise a \<open>state\<close> parameter that differs from the expected state gives the failure
  \<open>state_mismatch\<close>. Otherwise an empty \<open>code\<close> parameter gives the failure
  \<open>missing_code\<close>. A handler whose request fails a check never calls the exchange
  function, whatever happens afterwards. Otherwise the handler calls \<open>exchangeOnce.Do\<close>
  with the code: that runs the exchange function with the code when no request of this
  listener has entered it before, and does not run it otherwise.
\<close>

theorem callback_classification:
  "(Get q ''error'' \<noteq> '''' \<longrightarrow>
      handler_start e q =
        \<lparr>pc = AtSendResult \<lparr>cb_Storage = None, cb_Error = Get q ''error'',
                            cb_Desc = Get q ''error_description''\<rparr>,
         response = Some (writeCallbackPage False (Get q ''error'')
                            (Get q ''error_description''))\<rparr>)
   \<and> (Get q ''error'' = '''' \<and> Get q ''state'' \<noteq> e \<longrightarrow>
      handler_start e q =
        \<lparr>pc = AtSendResult \<lparr>cb_Storage = None, cb_Error = ''state_mismatch'',
                            cb_Desc = ''state parameter mismatch''\<rparr>,
         response = Some (writeCallbackPage False ''state_mismatch''
                            ''State parameter does not match. Possible CSRF attack.'')\<rparr>)
   \<and> (Get q ''error'' = '''' \<and> Get q ''state'' = e \<and> Get q ''code'' = '''' \<longrightarrow>
      handler_start e q =
        \<lparr>pc = AtSendResult \<lparr>cb_Storage = None, cb_Error = ''missing_code'',
                            cb_Desc = ''code parameter missing''\<rparr>,
         response = Some (writeCallbackPage False ''missing_code''
                            ''No authorization code in callback.'')\<rparr>)
   \<and> (Get q ''error'' = '''' \<and> Get q ''state'' = e \<and> Get q ''code'' \<noteq> '''' \<longrightarrow>
      handler_start e q = \<lparr>pc = AtExchangeOnce (Get q ''code''), response = None\<rparr>)
   \<and> (i < length (conns s) \<and> pc (conns s ! i) = Arrived q \<longrightarrow>
      conns (step fn s (Run i)) ! i = handler_start (expectedState s) q
      \<and> exchange_calls (step fn s (Run i)) = exchange_calls s)
   \<and> (i < length (conns s) \<and> pc (conns s ! i) = Arrived q \<and>
       (Get q ''error'' \<noteq> '''' \<or> Get q ''state'' \<noteq> expectedState s \<or> Get q ''code'' = '''') \<longrightarrow>
      calls_by i (run fn sched s) = calls_by i s)
   \<and> (i < length (conns s) \<and> pc (conns s ! i) = AtExchangeOnce code \<longrightarrow>
      exchange_calls (step fn s (Run i))
        = (if exchangeOnce s = Fresh then exchange_calls s @ [(i, code)] else exchange_calls s))"
proof -
  have never: "i < length (conns s) \<and> pc (conns s ! i) = Arrived q \<and>
       (Get q ''error'' \<noteq> '''' \<or> Get q ''state'' \<noteq> expectedState s \<or> Get q ''code'' = '''') \<longrightarrow>
      calls_by i (run fn sched s) = calls_by i s"
    using no_exchange_ahead_run [of i s fn sched] by auto
  have arrived: "i < length (conns s) \<and> pc (conns s ! i) = Arrived q \<longrightarrow>
      conns (step fn s (Run i)) ! i = handler_start (expectedState s) q
      \<and> exchange_calls (step fn s (Run i)) = exchange_calls s"
    using step_Arrived [of i s q fn] by blast
  have once: "i < length (conns s) \<and> pc (conns s ! i) = AtExchangeOnce code \<longrightarrow>
      exchange_calls (step fn s (Run i))
        = (if exchangeOnce s = Fresh then exchange_calls s @ [(i, code)] else exchange_calls s)"
    using step_AtExchangeOnce [of i s code fn] by blast
  note h = handler_start_cases [of q e]
  show ?thesis
    by (rule conjI [OF h [THEN conjunct1] conjI [OF h [THEN conjunct2, THEN conjunct1]
          conjI [OF h [THEN conjunct2, THEN conjunct2, THEN conjunct1]
            conjI [OF h [THEN conjunct2, THEN conjunct2, THEN conjunct2]
              conjI [OF arrived conjI [OF never once]]]]]])
qed

text \<open>
  The specification says that every request that passes the three checks has the
  exchange function run with its code. Below, a second request passes the three checks
  with the code \<open>code-2\<close> after a first one has been served: both handlers return, and
  the exchange function has been called once, with \<open>code-1\<close>.
\<close>

theorem second_request_not_exchanged:
  "Get (callback_query ''code-2'' ''st'') ''error'' = ''''
   \<and> Get (callback_query ''code-2'' ''st'') ''state'' = ''st''
   \<and> Get (callback_query ''code-2'' ''st'') ''code'' = ''code-2''
   \<and> map pc (conns (run mockExchangeFn two_codes (listening ''st''))) = [Finished, Finished]
   \<and> exchange_calls (run mockExchangeFn two_codes (listening ''st'')) = [(0, ''code-1'')]"
  by code_simp

text \<open>
  The requests of the program's tests: a denied authorization, a wrong state, a missing
  code, and a good callback, each at the start of a fresh listener.
\<close>

theorem callback_classification_witness:
  "pc (handler_start ''expected-state''
         [(''error'', [''access_denied'']), (''error_description'', [''User denied'']),
          (''state'', [''expected-state''])])
     = AtSendResult \<lparr>cb_Storage = None, cb_Error = ''access_denied'', cb_Desc = ''User denied''\<rparr>
   \<and> pc (handler_start ''expected-state'' (callback_query ''mycode'' ''wrong-state''))
     = AtSendResult \<lparr>cb_Storage = None, cb_Error = ''state_mismatch'',
                     cb_Desc = ''state parameter mismatch''\<rparr>
   \<and> pc (handler_start ''expected-state'' [(''state'', [''expected-state''])])
     = AtSendResult \<lparr>cb_Storage = None, cb_Error = ''missing_code'',
                     cb_Desc = ''code parameter missing''\<rparr>
   \<and> pc (handler_start ''expected-state'' (callback_query ''mycode'' ''expected-state''))
     = AtExchangeOnce ''mycode''
   \<and> calls_by 0 (run mockExchangeFn [Run 0, Run 0, Run 0]
        (step mockExchangeFn (listening ''expected-state'')
           (Request (callback_query ''mycode'' ''wrong-state'')))) = []
   \<and> exchange_calls (run mockExchangeFn [Run 0, Run 0]
        (step mockExchangeFn (listening ''expected-state'')
           (Request (callback_query ''mycode'' ''expected-state'')))) = [(0, ''mycode'')]"
proof -
  let ?denied = "[(''error'', [''access_denied'']), (''error_description'', [''User denied'']),
          (''state'', [''expected-state''])]"
  let ?wrong = "callback_query ''mycode'' ''wrong-state''"
  let ?nocode = "[(''state'', [''expected-state''])]"
  let ?good = "callback_query ''mycode'' ''expected-state''"
  let ?sw = "step mockExchangeFn (listening ''expected-state'') (Request ?wrong)"
  let ?sg = "step mockExchangeFn (listening ''expected-state'') (Request ?good)"
  have g: "Get ?denied ''error'' = ''access_denied''" "Get ?denied ''error_description'' = ''User denied''"
    "Get ?wrong ''error'' = ''''" "Get ?wrong ''state'' = ''wrong-state''"
    "Get ?nocode ''error'' = ''''" "Get ?nocode ''state'' = ''expected-state''"
    "Get ?nocode ''code'' = ''''"
    "Get ?good ''error'' = ''''" "Get ?good ''state'' = ''expected-state''"
    "Get ?good ''code'' = ''mycode''"
    by (simp_all add: Get_def callback_query_def)
  have sw: "0 < length (conns ?sw)" "pc (conns ?sw ! 0) = Arrived ?wrong"
    "expectedState ?sw = ''expected-state''" "calls_by 0 ?sw = []"
    by (simp_all add: step_def listening_def calls_by_def)
  have sg: "0 < length (conns ?sg)" "pc (conns ?sg ! 0) = Arrived ?good"
    "expectedState ?sg = ''expected-state''" "exchange_calls ?sg = []" "exchangeOnce ?sg = Fresh"
    by (simp_all add: step_def listening_def)
  have 1: "pc (handler_start ''expected-state'' ?denied)
     = AtSendResult \<lparr>cb_Storage = None, cb_Error = ''access_denied'', cb_Desc = ''User denied''\<rparr>"
    using callback_classification [of ?denied "''expected-state''"] g by simp
  have 2: "pc (handler_start ''expected-state'' ?wrong)
     = AtSendResult \<lparr>cb_Storage = None, cb_Error = ''state_mismatch'',
                     cb_Desc = ''state parameter mismatch''\<rparr>"
    using callback_classification [of ?wrong "''expected-state''"] g by simp
  have 3: "pc (handler_start ''expected-state'' ?nocode)
     = AtSendResult \<lparr>cb_Storage = None, cb_Error = ''missing_code'',
                     cb_Desc = ''code parameter missing''\<rparr>"
    using callback_classification [of ?nocode "''expected-state''"] g by simp
  have 4: "handler_start ''expected-state'' ?good = \<lparr>pc = AtExchangeOnce ''mycode'', response = None\<rparr>"
    using callback_classification [of ?good "''expected-state''"] g by simp
  have 5: "calls_by 0 (run mockExchangeFn [Run 0, Run 0, Run 0] ?sw) = []"
    using callback_classification [of ?wrong _ 0 ?sw mockExchangeFn "[Run 0, Run 0, Run 0]"] g sw
    by simp
  have s1: "conns (step mockExchangeFn ?sg (Run 0)) ! 0 = \<lparr>pc = AtExchangeOnce ''mycode'', response = None\<rparr>"
    "exchange_calls (step mockExchangeFn ?sg (Run 0)) = []"
    using callback_classification [of ?good _ 0 ?sg mockExchangeFn] sg 4 by simp_all
  have s1': "0 < length (conns (step mockExchangeFn ?sg (Run 0)))"
    "exchangeOnce (step mockExchangeFn ?sg (Run 0)) = Fresh"
    using sg by (simp_all add: step_Run run_handler_def handler_start_def Let_def g)
  have 6: "exchange_calls (run mockExchangeFn [Run 0, Run 0] ?sg) = [(0, ''mycode'')]"
    using callback_classification [of _ _ 0 "step mockExchangeFn ?sg (Run 0)" mockExchangeFn _ "''mycode''"]
      s1 s1' by simp
  from 1 2 3 4 5 6 show ?thesis by simp
qed

text \<open>
  C10. A request with no \<open>error\<close> and no \<open>state\<close> parameter reads an empty state, which
  equals an empty expected state: the handler of a listener started with the empty
  expected state goes on to the code check, and with a non-empty code from there to
  \<open>exchangeOnce.Do\<close>, which on a listener that has not yet exchanged calls the exchange
  function with the code. The state check rejects only a state that differs from the
  expected one: a request with no \<open>error\<close> parameter whose state equals the expected
  state is never answered with \<open>state_mismatch\<close>.
\<close>

theorem empty_expected_state_accepts_absent_state:
  "(map_of q ''error'' = None \<and> map_of q ''state'' = None \<longrightarrow>
      Get q ''state'' = ''''
      \<and> handler_start '''' q =
          (if Get q ''code'' = ''''
           then \<lparr>pc = AtSendResult \<lparr>cb_Storage = None, cb_Error = ''missing_code'',
                                    cb_Desc = ''code parameter missing''\<rparr>,
                 response = Some (writeCallbackPage False ''missing_code''
                                    ''No authorization code in callback.'')\<rparr>
           else \<lparr>pc = AtExchangeOnce (Get q ''code''), response = None\<rparr>))
   \<and> (map_of q ''error'' = None \<and> map_of q ''state'' = None \<and> Get q ''code'' \<noteq> '''' \<and>
       i < length (conns s) \<and> pc (conns s ! i) = Arrived q \<and> expectedState s = '''' \<and>
       exchangeOnce s = Fresh \<longrightarrow>
         exchange_calls (run fn [Run i, Run i] s) = exchange_calls s @ [(i, Get q ''code'')])
   \<and> (Get q' ''error'' = '''' \<and> Get q' ''state'' = e \<longrightarrow>
         cb_Error (case pc (handler_start e q') of AtSendResult r \<Rightarrow> r
                   | _ \<Rightarrow> \<lparr>cb_Storage = None, cb_Error = '''', cb_Desc = ''''\<rparr>)
           \<noteq> ''state_mismatch'')"
proof -
  have a: "map_of q ''error'' = None \<and> map_of q ''state'' = None \<longrightarrow>
      Get q ''state'' = ''''
      \<and> handler_start '''' q =
          (if Get q ''code'' = ''''
           then \<lparr>pc = AtSendResult \<lparr>cb_Storage = None, cb_Error = ''missing_code'',
                                    cb_Desc = ''code parameter missing''\<rparr>,
                 response = Some (writeCallbackPage False ''missing_code''
                                    ''No authorization code in callback.'')\<rparr>
           else \<lparr>pc = AtExchangeOnce (Get q ''code''), response = None\<rparr>)"
    by (simp add: handler_start_def Get_def Let_def)
  have b: "map_of q ''error'' = None \<and> map_of q ''state'' = None \<and> Get q ''code'' \<noteq> '''' \<and>
       i < length (conns s) \<and> pc (conns s ! i) = Arrived q \<and> expectedState s = '''' \<and>
       exchangeOnce s = Fresh \<longrightarrow>
         exchange_calls (run fn [Run i, Run i] s) = exchange_calls s @ [(i, Get q ''code'')]"
  proof (intro impI, elim conjE)
    assume h: "map_of q ''error'' = None" "map_of q ''state'' = None" "Get q ''code'' \<noteq> ''''"
      "i < length (conns s)" "pc (conns s ! i) = Arrived q" "expectedState s = ''''"
      "exchangeOnce s = Fresh"
    let ?s1 = "step fn s (Run i)"
    have start: "handler_start '''' q = \<lparr>pc = AtExchangeOnce (Get q ''code''), response = None\<rparr>"
      using a h by simp
    have s1: "conns ?s1 ! i = \<lparr>pc = AtExchangeOnce (Get q ''code''), response = None\<rparr>"
      "exchange_calls ?s1 = exchange_calls s"
      using step_Arrived [OF h(4,5), of fn] h(6) start by simp_all
    have s1': "i < length (conns ?s1)" "exchangeOnce ?s1 = Fresh"
      using h by (simp_all add: step_Run run_handler_def)
    from step_AtExchangeOnce [OF s1'(1), of "Get q ''code''" fn] s1 s1'
    show "exchange_calls (run fn [Run i, Run i] s) = exchange_calls s @ [(i, Get q ''code'')]"
      by simp
  qed
  have c: "Get q' ''error'' = '''' \<and> Get q' ''state'' = e \<longrightarrow>
         cb_Error (case pc (handler_start e q') of AtSendResult r \<Rightarrow> r
                   | _ \<Rightarrow> \<lparr>cb_Storage = None, cb_Error = '''', cb_Desc = ''''\<rparr>)
           \<noteq> ''state_mismatch''"
    by (simp add: handler_start_def Let_def)
  show ?thesis by (rule conjI [OF a conjI [OF b c]])
qed

theorem empty_expected_state_accepts_absent_state_witness:
  "handler_start '''' [(''code'', [''mycode''])]
     = \<lparr>pc = AtExchangeOnce ''mycode'', response = None\<rparr>
   \<and> exchange_calls (run mockExchangeFn [Run 0, Run 0]
        (step mockExchangeFn (listening '''') (Request [(''code'', [''mycode''])])))
     = [(0, ''mycode'')]
   \<and> handler_start '''' []
     = \<lparr>pc = AtSendResult \<lparr>cb_Storage = None, cb_Error = ''missing_code'',
                           cb_Desc = ''code parameter missing''\<rparr>,
        response = Some (writeCallbackPage False ''missing_code''
                           ''No authorization code in callback.'')\<rparr>"
proof -
  let ?q = "[(''code'', [''mycode''])] :: Values"
  let ?s = "step mockExchangeFn (listening '''') (Request ?q)"
  have q: "map_of ?q ''error'' = None" "map_of ?q ''state'' = None" "Get ?q ''code'' = ''mycode''"
    "map_of ([] :: Values) ''error'' = None" "map_of ([] :: Values) ''state'' = None"
    "Get [] ''code'' = ''''"
    by (simp_all add: Get_def)
  have s: "0 < length (conns ?s)" "pc (conns ?s ! 0) = Arrived ?q" "expectedState ?s = ''''"
    "exchangeOnce ?s = Fresh" "exchange_calls ?s = []"
    by (simp_all add: step_def listening_def)
  from empty_expected_state_accepts_absent_state [of ?q 0 ?s mockExchangeFn]
       empty_expected_state_accepts_absent_state [of "[]"] q s
  show ?thesis by simp
qed

section \<open>Properties of PKCE generation\<close>

lemma length_EncodeToString: "length (EncodeToString bs) = (4 * length bs + 2) div 3"
  by (induction bs rule: EncodeToString.induct) (simp_all add: Let_def)

lemma rand_Read_exact: "length r = n \<Longrightarrow> rand_Read n r = r"
  by (simp add: rand_Read_def)

text \<open>
  C5. When the entropy source delivers 32 bytes, \<open>GeneratePKCE\<close> succeeds; the verifier is
  the unpadded base64url text of those bytes and is 43 characters long, which lies within
  43 to 128; the challenge is the unpadded base64url text of the SHA-256 digest of the
  verifier's bytes; the method is \<open>S256\<close>.
\<close>

theorem GeneratePKCE_S256:
  "length r = 32 \<Longrightarrow>
     GeneratePKCE (Inr r) =
       Inr \<lparr>Verifier = EncodeToString r,
            Challenge = EncodeToString (Sum256 (bytes_of_string (EncodeToString r))),
            Method = ''S256''\<rparr>
     \<and> length (EncodeToString r) = 43
     \<and> 43 \<le> length (EncodeToString r) \<and> length (EncodeToString r) \<le> 128"
  by (simp add: GeneratePKCE_def rand_Read_exact length_EncodeToString Let_def)

text \<open>
  The example of RFC 7636, Appendix B: its 32 octets give its verifier and its challenge,
  which also checks \<open>EncodeToString\<close> and \<open>Sum256\<close> against the real functions.
\<close>

lemma rfc7636_verifier:
  "EncodeToString
     [116, 24, 223, 180, 151, 153, 224, 37, 79, 250, 96, 125, 216, 173, 187, 186,
      22, 212, 37, 77, 105, 214, 191, 240, 91, 88, 5, 88, 83, 132, 141, 121]
   = ''dBjftJeZ4CVP-mB92K27uhbUJU1p1r_wW1gFWFOEjXk''"
  by code_simp

lemma rfc7636_challenge:
  "EncodeToString (Sum256 (bytes_of_string ''dBjftJeZ4CVP-mB92K27uhbUJU1p1r_wW1gFWFOEjXk''))
   = ''E9Melhoa2OwvFrEMTJguCHaoeK1t8URWbuGJSstw-cM''"
  by code_simp

theorem GeneratePKCE_S256_witness:
  "GeneratePKCE (Inr
     [116, 24, 223, 180, 151, 153, 224, 37, 79, 250, 96, 125, 216, 173, 187, 186,
      22, 212, 37, 77, 105, 214, 191, 240, 91, 88, 5, 88, 83, 132, 141, 121])
   = Inr \<lparr>Verifier = ''dBjftJeZ4CVP-mB92K27uhbUJU1p1r_wW1gFWFOEjXk'',
          Challenge = ''E9Melhoa2OwvFrEMTJguCHaoeK1t8URWbuGJSstw-cM'',
          Method = ''S256''\<rparr>"
proof -
  have len: "length [116, 24, 223, 180, 151, 153, 224, 37, 79, 250, 96, 125, 216, 173, 187, 186,
      22, 212, 37, 77, 105, 214, 191, 240, 91, 88, 5, 88, 83, 132, 141, 121 :: byte] = 32"
    by simp
  from GeneratePKCE_S256 [OF len] show ?thesis
    by (simp only: rfc7636_verifier rfc7636_challenge)
qed

end
